theory Spec2Isabelle
  imports Complex_Main "HOL-Library.AList" "HOL-Library.Sublist" "HOL-Library.Multiset"
begin

section \<open>Strings and literals of app.js\<close>

text \<open>
  A JavaScript string is modelled as the byte string of its UTF-8 encoding, so the
  Chinese literals of the source are written byte by byte. Equality of strings, emptiness,
  splitting at the ASCII space and form encoding are the same on both readings.
\<close>

definition label_cpu_usage :: string where
  "label_cpu_usage = ''CPU'' @ [CHR 0xE4, CHR 0xBD, CHR 0xBF, CHR 0xE7, CHR 0x94, CHR 0xA8,
     CHR 0xE7, CHR 0x8E, CHR 0x87]"

definition label_mem_usage :: string where
  "label_mem_usage = [CHR 0xE5, CHR 0x86, CHR 0x85, CHR 0xE5, CHR 0xAD, CHR 0x98, CHR 0xE4,
     CHR 0xBD, CHR 0xBF, CHR 0xE7, CHR 0x94, CHR 0xA8, CHR 0xE7, CHR 0x8E, CHR 0x87]"

definition label_disk_usage :: string where
  "label_disk_usage = [CHR 0xE7, CHR 0xA3, CHR 0x81, CHR 0xE7, CHR 0x9B, CHR 0x98, CHR 0xE4,
     CHR 0xBD, CHR 0xBF, CHR 0xE7, CHR 0x94, CHR 0xA8, CHR 0xE7, CHR 0x8E, CHR 0x87]"

definition label_network_in :: string where
  "label_network_in = [CHR 0xE5, CHR 0x85, CHR 0xA5, CHR 0xE7, CHR 0xAB, CHR 0x99, CHR 0xE6,
     CHR 0xB5, CHR 0x81, CHR 0xE9, CHR 0x87, CHR 0x8F]"

definition label_network_out :: string where
  "label_network_out = [CHR 0xE5, CHR 0x87, CHR 0xBA, CHR 0xE7, CHR 0xAB, CHR 0x99, CHR 0xE6,
     CHR 0xB5, CHR 0x81, CHR 0xE9, CHR 0x87, CHR 0x8F]"

text \<open>The placeholder text of the empty table.\<close>

definition text_no_data :: string where
  "text_no_data = [CHR 0xE6, CHR 0x9A, CHR 0x82, CHR 0xE6, CHR 0x97, CHR 0xA0, CHR 0xE5,
     CHR 0x91, CHR 0x8A, CHR 0xE8, CHR 0xAD, CHR 0xA6, CHR 0xE6, CHR 0x95, CHR 0xB0, CHR 0xE6,
     CHR 0x8D, CHR 0xAE]"

text \<open>The two status texts (warning, normal) and the badge text of a row that is not a warning.\<close>

definition WARNING :: string where
  "WARNING = [CHR 0xE8, CHR 0xAD, CHR 0xA6, CHR 0xE5, CHR 0x91, CHR 0x8A]"

definition NORMAL :: string where
  "NORMAL = [CHR 0xE6, CHR 0xAD, CHR 0xA3, CHR 0xE5, CHR 0xB8, CHR 0xB8]"

definition text_hint :: string where
  "text_hint = [CHR 0xE6, CHR 0x8F, CHR 0x90, CHR 0xE7, CHR 0xA4, CHR 0xBA]"

definition text_abnormal :: string where
  "text_abnormal = [CHR 0xE5, CHR 0xBC, CHR 0x82, CHR 0xE5, CHR 0xB8, CHR 0xB8]"

text \<open>The prefixes of the three error notifications and the messages of the thrown errors.\<close>

definition prefix_refresh :: string where
  "prefix_refresh = [CHR 0xE5, CHR 0x88, CHR 0xB7, CHR 0xE6, CHR 0x96, CHR 0xB0, CHR 0xE6,
     CHR 0x95, CHR 0xB0, CHR 0xE6, CHR 0x8D, CHR 0xAE, CHR 0xE5, CHR 0xA4, CHR 0xB1, CHR 0xE8,
     CHR 0xB4, CHR 0xA5, CHR 0xEF, CHR 0xBC, CHR 0x9A]"

definition prefix_search :: string where
  "prefix_search = [CHR 0xE6, CHR 0x90, CHR 0x9C, CHR 0xE7, CHR 0xB4, CHR 0xA2, CHR 0xE5,
     CHR 0x91, CHR 0x8A, CHR 0xE8, CHR 0xAD, CHR 0xA6, CHR 0xE5, CHR 0xA4, CHR 0xB1, CHR 0xE8,
     CHR 0xB4, CHR 0xA5, CHR 0xEF, CHR 0xBC, CHR 0x9A]"

definition prefix_submit :: string where
  "prefix_submit = [CHR 0xE6, CHR 0x8F, CHR 0x90, CHR 0xE4, CHR 0xBA, CHR 0xA4, CHR 0xE5,
     CHR 0x91, CHR 0x8A, CHR 0xE8, CHR 0xAD, CHR 0xA6, CHR 0xE5, CHR 0xA4, CHR 0xB1, CHR 0xE8,
     CHR 0xB4, CHR 0xA5, CHR 0xEF, CHR 0xBC, CHR 0x9A]"

definition msg_refresh_failed :: string where
  "msg_refresh_failed = [CHR 0xE6, CHR 0x8E, CHR 0xA5, CHR 0xE5, CHR 0x8F, CHR 0xA3, CHR 0xE8,
     CHR 0xAF, CHR 0xB7, CHR 0xE6, CHR 0xB1, CHR 0x82, CHR 0xE5, CHR 0xA4, CHR 0xB1, CHR 0xE8,
     CHR 0xB4, CHR 0xA5]"

definition msg_search_failed :: string where
  "msg_search_failed = [CHR 0xE6, CHR 0x90, CHR 0x9C, CHR 0xE7, CHR 0xB4, CHR 0xA2, CHR 0xE5,
     CHR 0xA4, CHR 0xB1, CHR 0xE8, CHR 0xB4, CHR 0xA5]"

definition msg_submit_failed :: string where
  "msg_submit_failed = [CHR 0xE6, CHR 0x8F, CHR 0x90, CHR 0xE4, CHR 0xBA, CHR 0xA4, CHR 0xE5,
     CHR 0xA4, CHR 0xB1, CHR 0xE8, CHR 0xB4, CHR 0xA5]"

definition text_search_done :: string where
  "text_search_done = [CHR 0xE6, CHR 0x90, CHR 0x9C, CHR 0xE7, CHR 0xB4, CHR 0xA2, CHR 0xE5,
     CHR 0xAE, CHR 0x8C, CHR 0xE6, CHR 0x88, CHR 0x90, CHR 0xEF, CHR 0xBC, CHR 0x8C, CHR 0xE5,
     CHR 0x85, CHR 0xB1, CHR 0xE6, CHR 0x89, CHR 0xBE, CHR 0xE5, CHR 0x88, CHR 0xB0] @ '' ''"

definition text_records :: string where
  "text_records = '' '' @ [CHR 0xE6, CHR 0x9D, CHR 0xA1, CHR 0xE8, CHR 0xAE, CHR 0xB0, CHR 0xE5,
     CHR 0xBD, CHR 0x95]"

section \<open>String operations of the platform\<close>

text \<open>
  \<open>String.prototype.trim\<close> removes white space and line terminators from both ends. The
  characters it removes are listed by their UTF-8 encodings: tab, line feed, vertical tab,
  form feed, carriage return, space, U+00A0, U+1680, U+2000 to U+200A, U+2028, U+2029,
  U+202F, U+205F, U+3000 and U+FEFF.
\<close>

definition whiteSpace :: "string list" where
  "whiteSpace = [[CHR 0x09], [CHR 0x0A], [CHR 0x0B], [CHR 0x0C], [CHR 0x0D], [CHR 0x20],
     [CHR 0xC2, CHR 0xA0], [CHR 0xE1, CHR 0x9A, CHR 0x80],
     [CHR 0xE2, CHR 0x80, CHR 0x80], [CHR 0xE2, CHR 0x80, CHR 0x81],
     [CHR 0xE2, CHR 0x80, CHR 0x82], [CHR 0xE2, CHR 0x80, CHR 0x83],
     [CHR 0xE2, CHR 0x80, CHR 0x84], [CHR 0xE2, CHR 0x80, CHR 0x85],
     [CHR 0xE2, CHR 0x80, CHR 0x86], [CHR 0xE2, CHR 0x80, CHR 0x87],
     [CHR 0xE2, CHR 0x80, CHR 0x88], [CHR 0xE2, CHR 0x80, CHR 0x89],
     [CHR 0xE2, CHR 0x80, CHR 0x8A], [CHR 0xE2, CHR 0x80, CHR 0xA8],
     [CHR 0xE2, CHR 0x80, CHR 0xA9], [CHR 0xE2, CHR 0x80, CHR 0xAF],
     [CHR 0xE2, CHR 0x81, CHR 0x9F], [CHR 0xE3, CHR 0x80, CHR 0x80],
     [CHR 0xEF, CHR 0xBB, CHR 0xBF]]"

definition leading :: "string list \<Rightarrow> string \<Rightarrow> nat" where
  \<comment> \<open>The length of the first of the given sequences that the string starts with, 0 if none.\<close>
  "leading ws s = (case find (\<lambda>w. prefix w s) ws of Some w \<Rightarrow> length w | None \<Rightarrow> 0)"

function stripLeading :: "string list \<Rightarrow> string \<Rightarrow> string" where
  "stripLeading ws s =
     (if leading ws s = 0 then s else stripLeading ws (drop (leading ws s) s))"
  by pat_completeness auto

termination stripLeading
proof (relation "measure (\<lambda>(ws, s). length s)")
  show "wf (measure (\<lambda>(ws, s). length s))" by simp
next
  fix ws :: "string list" and s :: string
  assume "leading ws s \<noteq> 0"
  moreover have "leading ws s \<le> length s"
    by (auto simp: leading_def find_Some_iff prefix_def split: option.splits)
  ultimately show "((ws, drop (leading ws s) s), (ws, s)) \<in> measure (\<lambda>(ws, s). length s)"
    by simp
qed

definition trimStart :: "string \<Rightarrow> string" where
  "trimStart s = stripLeading whiteSpace s"

definition trimEnd :: "string \<Rightarrow> string" where
  "trimEnd s = rev (stripLeading (map rev whiteSpace) (rev s))"

definition trim :: "string \<Rightarrow> string" where
  "trim s = trimEnd (trimStart s)"

text \<open>
  \<open>s.split(sep)\<close> for a separator of one character: the pieces between the separators, the
  empty ones too; the empty string gives one empty piece.
\<close>

fun split :: "char \<Rightarrow> string \<Rightarrow> string list" where
  "split sep [] = [[]]"
| "split sep (c # cs) =
     (if c = sep then [] # split sep cs
      else (case split sep cs of
              w # ws \<Rightarrow> (c # w) # ws
            | [] \<Rightarrow> [[c]]))"

definition elemAt :: "'a list \<Rightarrow> nat \<Rightarrow> 'a option" where
  \<comment> \<open>An array read \<open>xs[i]\<close>; \<open>None\<close> is \<open>undefined\<close>.\<close>
  "elemAt xs i = (if i < length xs then Some (xs ! i) else None)"

text \<open>The decimal text of a number, as a template literal prints an array length.\<close>

fun showNat :: "nat \<Rightarrow> string" where
  "showNat n =
     (if n < 10 then [char_of (48 + n)]
      else showNat (n div 10) @ [char_of (48 + n mod 10)])"

definition showInt :: "int \<Rightarrow> string" where
  "showInt i = (if i < 0 then ''-'' @ showNat (nat (- i)) else showNat (nat i))"

text \<open>
  \<open>URLSearchParams.prototype.toString\<close>: the form encoding of the pairs. Letters, digits and
  \<open>* - . _\<close> stay, a space becomes \<open>+\<close>, every other byte becomes \<open>%XX\<close>.
\<close>

definition hexDigit :: "nat \<Rightarrow> char" where
  "hexDigit n = (if n < 10 then char_of (48 + n) else char_of (55 + n))"

definition isAlnum :: "char \<Rightarrow> bool" where
  "isAlnum c = (let n = (of_char c :: nat) in
     (48 \<le> n \<and> n \<le> 57) \<or> (65 \<le> n \<and> n \<le> 90) \<or> (97 \<le> n \<and> n \<le> 122))"

definition encodeByte :: "char \<Rightarrow> string" where
  "encodeByte c =
     (if isAlnum c \<or> c \<in> set ''*-._'' then [c]
      else if c = CHR '' '' then ''+''
      else [CHR ''%'', hexDigit ((of_char c :: nat) div 16), hexDigit ((of_char c :: nat) mod 16)])"

definition formEncode :: "string \<Rightarrow> string" where
  "formEncode s = concat (map encodeByte s)"

fun joinWith :: "string \<Rightarrow> string list \<Rightarrow> string" where
  "joinWith sep [] = []"
| "joinWith sep [x] = x"
| "joinWith sep (x # y # ys) = x @ sep @ joinWith sep (y # ys)"

definition paramsToString :: "(string \<times> string) list \<Rightarrow> string" where
  "paramsToString ps = joinWith ''&'' (map (\<lambda>(k, v). formEncode k @ ''='' @ formEncode v) ps)"

text \<open>
  \<open>[...new Set(xs)]\<close>: the distinct elements in the order of their first occurrence.
\<close>

definition newSet :: "'a list \<Rightarrow> 'a list" where
  "newSet xs = fold (\<lambda>x acc. if x \<in> set acc then acc else acc @ [x]) xs []"

definition slice_last :: "nat \<Rightarrow> 'a list \<Rightarrow> 'a list" where
  \<comment> \<open>\<open>xs.slice(-n)\<close>\<close>
  "slice_last n xs = drop (length xs - n) xs"

text \<open>The message of the TypeError of a property read on \<open>null\<close>, as V8 words it.\<close>

definition nullError :: "string \<Rightarrow> string" where
  "nullError prop = ''Cannot read properties of null (reading '' @ [CHR 0x27] @ prop
     @ [CHR 0x27] @ '')''"

section \<open>Objects used as dictionaries\<close>

text \<open>
  An object literal \<open>{...}\<close> has its own properties, kept here in creation order, and
  inherits those of \<open>Object.prototype\<close>. A property read \<open>o[k]\<close> finds an own property, or
  else a member inherited under that name, or else \<open>undefined\<close>.
\<close>

type_synonym 'v object = "(string \<times> 'v) list"

datatype 'v lookup = Own 'v | FromPrototype string | Undefined

definition objectPrototype :: "string list" where
  "objectPrototype = [''constructor'', ''hasOwnProperty'', ''isPrototypeOf'',
     ''propertyIsEnumerable'', ''toLocaleString'', ''toString'', ''valueOf'', ''__proto__'',
     ''__defineGetter__'', ''__defineSetter__'', ''__lookupGetter__'', ''__lookupSetter__'']"

definition getProperty :: "'v object \<Rightarrow> string \<Rightarrow> 'v lookup" where
  "getProperty obj k =
     (case map_of obj k of
        Some v \<Rightarrow> Own v
      | None \<Rightarrow> if k \<in> set objectPrototype then FromPrototype k else Undefined)"

text \<open>
  An assignment \<open>o[k] = v\<close> of a primitive value overwrites an own property in place or
  appends a new one; under the name \<open>__proto__\<close> it reaches the inherited setter, which
  ignores a value that is not an object.
\<close>

definition setProperty :: "'v object \<Rightarrow> string \<Rightarrow> 'v \<Rightarrow> 'v object" where
  "setProperty obj k v = (if k = ''__proto__'' then obj else AList.update k v obj)"

text \<open>
  A key is an array index when it is the decimal numeral, without leading zeros, of a number
  below \<open>2^32 - 1\<close>. \<open>Object.keys\<close> and \<open>Object.values\<close> list the array indices first, in
  ascending numeric order, and then the other keys in creation order.
\<close>

definition isDigit :: "char \<Rightarrow> bool" where
  "isDigit c = (48 \<le> (of_char c :: nat) \<and> (of_char c :: nat) \<le> 57)"

definition decimal :: "string \<Rightarrow> nat" where
  "decimal s = foldl (\<lambda>n c. 10 * n + ((of_char c :: nat) - 48)) 0 s"

definition arrayIndex :: "string \<Rightarrow> nat option" where
  "arrayIndex s =
     (if s = [] \<or> \<not> list_all isDigit s \<or> (1 < length s \<and> hd s = CHR ''0'') then None
      else if decimal s \<le> 4294967294 then Some (decimal s) else None)"

definition isIndex :: "string \<Rightarrow> bool" where
  "isIndex s = (arrayIndex s \<noteq> None)"

definition indexOf :: "string \<Rightarrow> nat" where
  "indexOf s = (case arrayIndex s of Some n \<Rightarrow> n | None \<Rightarrow> 0)"

definition ownKeyOrder :: "'v object \<Rightarrow> 'v object" where
  "ownKeyOrder obj =
     sort_key (\<lambda>p. indexOf (fst p)) (filter (\<lambda>p. isIndex (fst p)) obj)
       @ filter (\<lambda>p. \<not> isIndex (fst p)) obj"

definition Object_keys :: "'v object \<Rightarrow> string list" where
  "Object_keys obj = map fst (ownKeyOrder obj)"

definition Object_values :: "'v object \<Rightarrow> 'v list" where
  "Object_values obj = map snd (ownKeyOrder obj)"

section \<open>formatMetricName\<close>

text \<open>
  The value of \<open>map[metric] || metric\<close> is a string, or a member of \<open>Object.prototype\<close>
  (a built-in function, or the prototype itself under \<open>__proto__\<close>) when the metric is the
  name of one.
\<close>

datatype jsval = Str string | Inherited string

definition truthy :: "jsval \<Rightarrow> bool" where
  "truthy v = (case v of Str s \<Rightarrow> s \<noteq> [] | Inherited n \<Rightarrow> True)"

definition metricMap :: "string object" where
  "metricMap = [(''cpu_usage'', label_cpu_usage), (''mem_usage'', label_mem_usage),
     (''disk_usage'', label_disk_usage), (''network_in'', label_network_in),
     (''network_out'', label_network_out)]"

definition formatMetricName :: "string \<Rightarrow> jsval" where
  "formatMetricName metric =
     (let found = (case getProperty metricMap metric of
                     Own l \<Rightarrow> Some (Str l)
                   | FromPrototype n \<Rightarrow> Some (Inherited n)
                   | Undefined \<Rightarrow> None)
      in case found of
           Some v \<Rightarrow> if truthy v then v else Str metric
         | None \<Rightarrow> Str metric)"

text \<open>
  Conversion to a string, as a template literal or a property key does it. The text of a
  built-in function is the one V8 prints; \<open>constructor\<close> is the function named \<open>Object\<close>.
\<close>

definition toString :: "jsval \<Rightarrow> string" where
  "toString v =
     (case v of
        Str s \<Rightarrow> s
      | Inherited n \<Rightarrow>
          if n = ''__proto__'' then ''[object Object]''
          else ''function '' @ (if n = ''constructor'' then ''Object'' else n)
                 @ ''() { [native code] }'')"

section \<open>Data model and page state\<close>

text \<open>
  An alert record as the backend returns it. The field \<open>val\<close> is the record's \<open>value\<close>, a
  JSON number. An element of the array \<open>result.alerts\<close> is such a record or \<open>null\<close>; the
  global \<open>alertsData\<close> holds the array as it was received.
\<close>

record alert =
  created_at :: string
  hostname :: string
  metric :: string
  val :: real
  message :: string

datatype entry = Record alert | Null

text \<open>
  What the code takes from the platform: \<open>newDate s\<close> is the time value in milliseconds of
  \<open>new Date(s)\<close>, \<open>None\<close> for an invalid date; \<open>arraySort cmp xs\<close> is the result of
  \<open>Array.prototype.sort\<close> with a comparison function whose result is a number or \<open>NaN\<close>
  (\<open>None\<close>). Both are parameters of the model.
\<close>

record platform =
  newDate :: "string \<Rightarrow> int option"
  arraySort :: "(alert \<Rightarrow> alert \<Rightarrow> int option) \<Rightarrow> alert list \<Rightarrow> alert list"

text \<open>
  The table body is a list of rows, a row a list of cells. The text of a field is taken as
  text: markup inside a field value is not modelled.
\<close>

datatype content = Text string | Percent real | Badge string string

record td =
  colspan :: nat
  td_class :: string
  content :: content

type_synonym tr = "td list"

definition cell :: "content \<Rightarrow> td" where
  "cell c = \<lparr>colspan = 1, td_class = [], content = c\<rparr>"

text \<open>The four summary cards.\<close>

record cards =
  total_alerts :: nat
  error_hosts :: nat
  normal_count :: nat
  system_status :: string
  status_class :: string

text \<open>
  A value of the counting object \<open>metricCount\<close>: a number, or the string that \<open>+ 1\<close> makes
  of a value that is not a number.
\<close>

datatype count = Num nat | StrVal string

record cpu_series =
  cpu_labels :: "string option list"
  cpu_values :: "real list"

record type_series =
  type_labels :: "string list"
  type_values :: "count list"

record chart_data =
  cpuData :: cpu_series
  alertTypeData :: type_series

text \<open>
  A \<open>Chart\<close> instance is attached to a canvas from its construction until \<open>destroy()\<close>. The
  page holds the instances that are alive, the two global variables hold references to
  instances, and \<open>chart_log\<close> records every construction and destruction in the order in
  which they happen.
\<close>

datatype canvas = CpuTrendCanvas | AlertTypeCanvas

datatype config = Line cpu_series | Doughnut type_series "string list"

record chart =
  chart_id :: nat
  chart_canvas :: canvas
  chart_config :: config

datatype chart_event = Created nat canvas | Destroyed nat

record request =
  req_method :: string
  req_url :: string
  req_content_type :: string
  req_body :: "string option"

text \<open>
  The state of the page. \<open>thrown\<close> is the exception that a step of a \<open>try\<close> block has
  thrown and that is not caught yet: a step that throws stops there and leaves its message in
  \<open>thrown\<close>, with everything it did before still done.
\<close>

record page =
  alertsData :: "entry list"
  cpuTrendChart :: "nat option"
  alertTypeChart :: "nat option"
  tbody :: "tr list"
  summary :: cards
  live_charts :: "chart list"
  next_chart_id :: nat
  chart_log :: "chart_event list"
  notifications :: "string list"
  console :: "string list"
  requests :: "request list"
  thrown :: "string option"

definition initial :: page where
  "initial = \<lparr>alertsData = [], cpuTrendChart = None, alertTypeChart = None, tbody = [],
     summary = \<lparr>total_alerts = 0, error_hosts = 0, normal_count = 0, system_status = [],
       status_class = []\<rparr>,
     live_charts = [], next_chart_id = 0, chart_log = [], notifications = [], console = [],
     requests = [], thrown = None\<rparr>"

text \<open>
  An array method whose callback reads the property \<open>prop\<close> of each element in turn
  (\<open>filter\<close> with \<open>a.value\<close> or \<open>a.metric\<close>): the message of the TypeError at the first
  \<open>null\<close> element, or the records of the array.
\<close>

fun elements :: "string \<Rightarrow> entry list \<Rightarrow> string + alert list" where
  "elements prop [] = Inr []"
| "elements prop (Null # es) = Inl (nullError prop)"
| "elements prop (Record a # es) =
     (case elements prop es of Inl m \<Rightarrow> Inl m | Inr as \<Rightarrow> Inr (a # as))"

section \<open>Rendering\<close>

definition tableRow :: "alert \<Rightarrow> tr" where
  "tableRow a =
     (let statusLabel = (if val a > 80 then Badge ''badge bg-warning'' WARNING
                         else Badge ''badge bg-info'' text_hint)
      in [cell (Text (created_at a)), cell (Text (hostname a)),
          cell (Text (toString (formatMetricName (metric a)))), cell (Percent (val a)),
          cell statusLabel])"

text \<open>
  The \<open>forEach\<close> of \<open>renderAlertsTable\<close>: a row is appended for each record; at a \<open>null\<close>
  element the read of \<open>alert.value\<close> throws, after the rows of the elements before it.
\<close>

fun appendRows :: "entry list \<Rightarrow> page \<Rightarrow> page" where
  "appendRows [] st = st"
| "appendRows (Null # es) st = st\<lparr>thrown := Some (nullError ''value'')\<rparr>"
| "appendRows (Record a # es) st = appendRows es (st\<lparr>tbody := tbody st @ [tableRow a]\<rparr>)"

definition renderAlertsTable :: "page \<Rightarrow> page" where
  "renderAlertsTable st =
     (if length (alertsData st) = 0
      then st\<lparr>tbody := [[\<lparr>colspan = 5, td_class = ''text-center'', content = Text text_no_data\<rparr>]]\<rparr>
      else appendRows (alertsData st) (st\<lparr>tbody := []\<rparr>))"

text \<open>
  \<open>updateCoreMetrics\<close> writes the total first; the \<open>filter\<close> that follows throws at a
  \<open>null\<close> element, before the other three cards are written.
\<close>

definition updateCoreMetrics :: "page \<Rightarrow> page" where
  "updateCoreMetrics st =
     (let st1 = st\<lparr>summary := (summary st)\<lparr>total_alerts := length (alertsData st)\<rparr>\<rparr>
      in case elements ''value'' (alertsData st) of
           Inl m \<Rightarrow> st1\<lparr>thrown := Some m\<rparr>
         | Inr alerts \<Rightarrow>
             (let errorHosts = newSet (map hostname (filter (\<lambda>a. val a > 80) alerts));
                  normalCount = length (filter (\<lambda>a. val a \<le> 80) alerts);
                  systemStatus = (if length errorHosts > 0 then WARNING else NORMAL)
              in st1\<lparr>summary := \<lparr>total_alerts = length (alertsData st),
                         error_hosts = length errorHosts,
                         normal_count = normalCount,
                         system_status = systemStatus,
                         status_class =
                           (if systemStatus = WARNING then ''card-text display-4 text-warning''
                            else ''card-text display-4 text-success'')\<rparr>\<rparr>))"

section \<open>Chart data\<close>

text \<open>
  The comparison function of the sort, \<open>new Date(a.created_at) - new Date(b.created_at)\<close>:
  the difference of two dates is \<open>NaN\<close> when one of them is invalid.
\<close>

definition dateDiff :: "platform \<Rightarrow> alert \<Rightarrow> alert \<Rightarrow> int option" where
  "dateDiff pf a b =
     (case (newDate pf (created_at a), newDate pf (created_at b)) of
        (Some x, Some y) \<Rightarrow> Some (x - y)
      | _ \<Rightarrow> None)"

definition cpuAlerts :: "platform \<Rightarrow> alert list \<Rightarrow> alert list" where
  "cpuAlerts pf alerts =
     slice_last 10 (arraySort pf (dateDiff pf) (filter (\<lambda>a. metric a = ''cpu_usage'') alerts))"

definition timeLabel :: "alert \<Rightarrow> string option" where
  "timeLabel a = elemAt (split CHR '' '' (created_at a)) 1"

text \<open>
  One step of the counting loop, \<open>metricCount[metricName] = (metricCount[metricName] || 0) + 1\<close>.
\<close>

definition plusOne :: "count lookup \<Rightarrow> count" where
  "plusOne found =
     (case found of
        Own (Num n) \<Rightarrow> Num (n + 1)
      | Own (StrVal t) \<Rightarrow> if t = [] then Num 1 else StrVal (t @ ''1'')
      | FromPrototype n \<Rightarrow> StrVal (toString (Inherited n) @ ''1'')
      | Undefined \<Rightarrow> Num 1)"

definition countMetric :: "alert \<Rightarrow> count object \<Rightarrow> count object" where
  "countMetric a metricCount =
     (let metricName = toString (formatMetricName (metric a))
      in setProperty metricCount metricName (plusOne (getProperty metricCount metricName)))"

text \<open>The chart data of a collection of records.\<close>

definition processChartData :: "platform \<Rightarrow> alert list \<Rightarrow> chart_data" where
  "processChartData pf alerts =
     (let cpu = cpuAlerts pf alerts;
          metricCount = fold countMetric alerts []
      in \<lparr>cpuData = \<lparr>cpu_labels = map timeLabel cpu, cpu_values = map val cpu\<rparr>,
          alertTypeData = \<lparr>type_labels = Object_keys metricCount,
                           type_values = Object_values metricCount\<rparr>\<rparr>)"

section \<open>Chart instances\<close>

definition destroy :: "nat \<Rightarrow> page \<Rightarrow> page" where
  "destroy i st = st\<lparr>live_charts := filter (\<lambda>c. chart_id c \<noteq> i) (live_charts st),
                     chart_log := chart_log st @ [Destroyed i]\<rparr>"

definition newChart :: "canvas \<Rightarrow> config \<Rightarrow> page \<Rightarrow> nat \<times> page" where
  "newChart cv cfg st =
     (next_chart_id st,
      st\<lparr>live_charts := live_charts st
             @ [\<lparr>chart_id = next_chart_id st, chart_canvas = cv, chart_config = cfg\<rparr>],
         next_chart_id := next_chart_id st + 1,
         chart_log := chart_log st @ [Created (next_chart_id st) cv]\<rparr>)"

definition renderCpuTrendChart :: "cpu_series \<Rightarrow> page \<Rightarrow> page" where
  "renderCpuTrendChart data st =
     (let st1 = (case cpuTrendChart st of Some i \<Rightarrow> destroy i st | None \<Rightarrow> st);
          (i, st2) = newChart CpuTrendCanvas (Line data) st1
      in st2\<lparr>cpuTrendChart := Some i\<rparr>)"

definition colors :: "string list" where
  "colors = [''#0d6efd'', ''#198754'', ''#ffc107'', ''#dc3545'', ''#6f42c1'', ''#20c997'']"

definition renderAlertTypeChart :: "type_series \<Rightarrow> page \<Rightarrow> page" where
  "renderAlertTypeChart data st =
     (let st1 = (case alertTypeChart st of Some i \<Rightarrow> destroy i st | None \<Rightarrow> st);
          (i, st2) = newChart AlertTypeCanvas
                       (Doughnut data (take (length (type_labels data)) colors)) st1
      in st2\<lparr>alertTypeChart := Some i\<rparr>)"

text \<open>
  \<open>renderCharts\<close> computes the chart data first; the first \<open>filter\<close> of
  \<open>processChartData\<close> throws at a \<open>null\<close> element, before any chart is touched.
\<close>

definition renderCharts :: "platform \<Rightarrow> page \<Rightarrow> page" where
  "renderCharts pf st =
     (case elements ''metric'' (alertsData st) of
        Inl m \<Rightarrow> st\<lparr>thrown := Some m\<rparr>
      | Inr alerts \<Rightarrow>
          (let chartData = processChartData pf alerts
           in renderAlertTypeChart (alertTypeData chartData)
                (renderCpuTrendChart (cpuData chartData) st)))"

section \<open>Network operations\<close>

text \<open>
  What a \<open>fetch\<close> followed by \<open>response.json()\<close> can give: the request is rejected with an
  error message, or a response arrives with its \<open>ok\<close> flag and a body that does not parse
  (with the parser's message) or parses to \<open>null\<close> or to a value with the field the caller
  reads. A field is absent, \<open>null\<close> or present; the field \<open>alerts\<close>, when present, is an
  array of entries.
\<close>

datatype 'a field = Absent | NullField | Present 'a

datatype 'a result = JsonNull | JsonValue "'a field"

datatype 'a body = Unparseable string | Parsed "'a result"

datatype 'a response = Rejected string | Responded bool "'a body"

definition receive :: "string \<Rightarrow> string \<Rightarrow> 'a response \<Rightarrow> string + 'a field" where
  \<comment> \<open>The message of the error thrown before the field is read, or the field read.\<close>
  "receive failure prop resp =
     (case resp of
        Rejected m \<Rightarrow> Inl m
      | Responded ok body \<Rightarrow>
          if \<not> ok then Inl failure
          else (case body of
                  Unparseable m \<Rightarrow> Inl m
                | Parsed JsonNull \<Rightarrow> Inl (nullError prop)
                | Parsed (JsonValue f) \<Rightarrow> Inr f))"

definition orEmpty :: "entry list field \<Rightarrow> entry list" where
  \<comment> \<open>\<open>result.alerts || []\<close>; an array is truthy, the empty one too.\<close>
  "orEmpty f = (case f of Present xs \<Rightarrow> xs | NullField \<Rightarrow> [] | Absent \<Rightarrow> [])"

definition showField :: "string field \<Rightarrow> string" where
  "showField f = (case f of Present m \<Rightarrow> m | NullField \<Rightarrow> ''null'' | Absent \<Rightarrow> ''undefined'')"

definition fetch :: "request \<Rightarrow> page \<Rightarrow> page" where
  "fetch r st = st\<lparr>requests := requests st @ [r]\<rparr>"

definition window_alert :: "string \<Rightarrow> page \<Rightarrow> page" where
  "window_alert m st = st\<lparr>notifications := notifications st @ [m]\<rparr>"

definition console_error :: "string \<Rightarrow> page \<Rightarrow> page" where
  "console_error m st = st\<lparr>console := console st @ [m]\<rparr>"

definition caught :: "string \<Rightarrow> string \<Rightarrow> page \<Rightarrow> page" where
  \<comment> \<open>The \<open>catch\<close> block of the three operations.\<close>
  "caught pre m st = console_error m (window_alert (pre @ m) st)"

text \<open>
  Inside a \<open>try\<close> block the next statement runs unless an exception is in flight. The three
  render calls that follow the replacement of the store are such statements.
\<close>

definition andThen :: "(page \<Rightarrow> page) \<Rightarrow> page \<Rightarrow> page" where
  "andThen f st = (if thrown st = None then f st else st)"

definition render :: "platform \<Rightarrow> page \<Rightarrow> page" where
  "render pf st = andThen (renderCharts pf) (andThen updateCoreMetrics (renderAlertsTable st))"

definition refreshAlerts :: "platform \<Rightarrow> entry list response \<Rightarrow> page \<Rightarrow> page" where
  "refreshAlerts pf resp st =
     (let st1 = fetch \<lparr>req_method = ''GET'', req_url = ''/alerts/'', req_content_type = [],
                   req_body = None\<rparr> st
      in case receive msg_refresh_failed ''alerts'' resp of
           Inl m \<Rightarrow> caught prefix_refresh m st1
         | Inr alerts \<Rightarrow>
             (let st2 = render pf (st1\<lparr>alertsData := orEmpty alerts\<rparr>)
              in case thrown st2 of
                   None \<Rightarrow> st2
                 | Some m \<Rightarrow> caught prefix_refresh m (st2\<lparr>thrown := None\<rparr>)))"

definition searchParams :: "string \<Rightarrow> string \<Rightarrow> string \<Rightarrow> (string \<times> string) list" where
  "searchParams hostnameField startField endField =
     (let hostname = trim hostnameField; startTime = startField; endTime = endField
      in (if hostname \<noteq> [] then [(''hostname'', hostname)] else [])
         @ (if startTime \<noteq> [] then [(''start_time'', startTime)] else [])
         @ (if endTime \<noteq> [] then [(''end_time'', endTime)] else []))"

definition searchAlerts ::
  "platform \<Rightarrow> string \<Rightarrow> string \<Rightarrow> string \<Rightarrow> entry list response \<Rightarrow> page \<Rightarrow> page" where
  "searchAlerts pf hostnameField startField endField resp st =
     (let params = searchParams hostnameField startField endField;
          st1 = fetch \<lparr>req_method = ''GET'',
                   req_url = ''/alerts/search?'' @ paramsToString params,
                   req_content_type = ''application/json'', req_body = None\<rparr> st
      in case receive msg_search_failed ''alerts'' resp of
           Inl m \<Rightarrow> caught prefix_search m st1
         | Inr alerts \<Rightarrow>
             (let st2 = render pf (st1\<lparr>alertsData := orEmpty alerts\<rparr>)
              in case thrown st2 of
                   None \<Rightarrow>
                     window_alert
                       (text_search_done @ showNat (length (alertsData st2)) @ text_records) st2
                 | Some m \<Rightarrow> caught prefix_search m (st2\<lparr>thrown := None\<rparr>)))"

definition resetSearch :: "platform \<Rightarrow> entry list response \<Rightarrow> page \<Rightarrow> page" where
  "resetSearch pf resp st = refreshAlerts pf resp st"

text \<open>
  The fields of the alert form; \<open>form_value\<close> is the result of \<open>parseInt\<close> on the value
  field, \<open>None\<close> for \<open>NaN\<close>.
\<close>

record alert_form =
  form_hostname :: string
  form_metric :: string
  form_value :: "int option"
  form_message :: string

definition showNumber :: "int option \<Rightarrow> string" where
  "showNumber v = (case v of Some i \<Rightarrow> showInt i | None \<Rightarrow> ''NaN'')"

definition submitAlert ::
  "platform \<Rightarrow> alert_form \<Rightarrow> string response \<Rightarrow> entry list response \<Rightarrow> page \<Rightarrow> page" where
  "submitAlert pf form resp refreshResp st =
     (let hostname = trim (form_hostname form);
          metric = form_metric form;
          value = form_value form;
          message = (if trim (form_message form) \<noteq> [] then trim (form_message form)
                     else toString (formatMetricName metric) @ text_abnormal);
          st1 = fetch \<lparr>req_method = ''POST'', req_url = ''/alerts/'',
                   req_content_type = ''application/x-www-form-urlencoded'',
                   req_body = Some (paramsToString [(''hostname'', hostname), (''metric'', metric),
                     (''value'', showNumber value), (''message'', message)])\<rparr> st
      in case receive msg_submit_failed ''message'' resp of
           Inl m \<Rightarrow> caught prefix_submit m st1
         | Inr msg \<Rightarrow> refreshAlerts pf refreshResp (window_alert (showField msg) st1))"

text \<open>
  The four triggers of the page, each with what the network answers, and a run of the page
  from its initial state.
\<close>

datatype event =
    Load "entry list response"
  | Search string string string "entry list response"
  | Reset "entry list response"
  | Submit alert_form "string response" "entry list response"

fun handle :: "platform \<Rightarrow> event \<Rightarrow> page \<Rightarrow> page" where
  "handle pf (Load resp) st = refreshAlerts pf resp st"
| "handle pf (Search h s e resp) st = searchAlerts pf h s e resp st"
| "handle pf (Reset resp) st = resetSearch pf resp st"
| "handle pf (Submit form resp refreshResp) st = submitAlert pf form resp refreshResp st"

definition run :: "platform \<Rightarrow> event list \<Rightarrow> page" where
  "run pf evs = fold (handle pf) evs initial"

section \<open>A sample platform and sample data\<close>

text \<open>
  For evaluating the model on examples. The dates: the time value of a timestamp of the form
  \<open>YYYY-MM-DD HH:MM:SS\<close> read in the UTC time zone; every other string is taken as an
  invalid date here.
\<close>

definition daysFromCivil :: "int \<Rightarrow> int \<Rightarrow> int \<Rightarrow> int" where
  "daysFromCivil y m d =
     (let y1 = (if m \<le> 2 then y - 1 else y);
          era = y1 div 400;
          yoe = y1 - era * 400;
          doy = (153 * (if m > 2 then m - 3 else m + 9) + 2) div 5 + d - 1;
          doe = yoe * 365 + yoe div 4 - yoe div 100 + doy
      in era * 146097 + doe - 719468)"

definition number :: "string \<Rightarrow> nat \<Rightarrow> nat \<Rightarrow> int option" where
  \<comment> \<open>The number written by the \<open>n\<close> digits from position \<open>i\<close>.\<close>
  "number s i n =
     (let ds = take n (drop i s)
      in if length ds = n \<and> list_all isDigit ds then Some (int (decimal ds)) else None)"

definition utcDate :: "string \<Rightarrow> int option" where
  "utcDate s =
     (if length s = 19 \<and> map (\<lambda>i. s ! i) [4, 7, 10, 13, 16] = ''-- ::'' then
        (case (number s 0 4, number s 5 2, number s 8 2, number s 11 2, number s 14 2,
               number s 17 2) of
           (Some y, Some m, Some d, Some h, Some mi, Some sec) \<Rightarrow>
             if 1 \<le> m \<and> m \<le> 12 \<and> 1 \<le> d \<and> d \<le> 31 \<and> h \<le> 23 \<and> mi \<le> 59 \<and> sec \<le> 59
             then Some ((((daysFromCivil y m d * 24 + h) * 60 + mi) * 60 + sec) * 1000)
             else None
         | _ \<Rightarrow> None)
      else None)"

text \<open>
  The sort: the algorithm of V8 for an array of fewer than 64 elements. The result of the
  comparison function counts as \<open>+0\<close> when it is \<open>NaN\<close>. The longest run at the start of the
  array is found (ascending, or strictly descending and then reversed), and each element
  after the run is put into the sorted part at the place a binary search gives. Longer arrays
  are sorted the same way here; V8 sorts them run by run and merges the runs.
\<close>

definition order :: "('a \<Rightarrow> 'a \<Rightarrow> int option) \<Rightarrow> 'a \<Rightarrow> 'a \<Rightarrow> int" where
  "order cmp a b = (case cmp a b of Some d \<Rightarrow> d | None \<Rightarrow> 0)"

fun runLength :: "bool \<Rightarrow> ('a \<Rightarrow> 'a \<Rightarrow> int option) \<Rightarrow> 'a \<Rightarrow> 'a list \<Rightarrow> nat" where
  "runLength descending cmp previous [] = 0"
| "runLength descending cmp previous (x # xs) =
     (if (if descending then order cmp x previous \<ge> 0 else order cmp x previous < 0) then 0
      else Suc (runLength descending cmp x xs))"

function binarySearch ::
  "('a \<Rightarrow> 'a \<Rightarrow> int option) \<Rightarrow> 'a \<Rightarrow> 'a list \<Rightarrow> nat \<Rightarrow> nat \<Rightarrow> nat" where
  "binarySearch cmp pivot xs left right =
     (if left < right then
        (let mid = left + (right - left) div 2
         in if order cmp pivot (xs ! mid) < 0 then binarySearch cmp pivot xs left mid
            else binarySearch cmp pivot xs (mid + 1) right)
      else left)"
  by pat_completeness auto

termination binarySearch
  by (relation "measure (\<lambda>(cmp, pivot, xs, left, right). right - left)") auto

declare binarySearch.simps [simp del]

fun binaryInsertion :: "('a \<Rightarrow> 'a \<Rightarrow> int option) \<Rightarrow> 'a list \<Rightarrow> 'a list \<Rightarrow> 'a list" where
  "binaryInsertion cmp sorted_part [] = sorted_part"
| "binaryInsertion cmp sorted_part (pivot # rest) =
     (let left = binarySearch cmp pivot sorted_part 0 (length sorted_part)
      in binaryInsertion cmp (take left sorted_part @ pivot # drop left sorted_part) rest)"

definition v8Sort :: "('a \<Rightarrow> 'a \<Rightarrow> int option) \<Rightarrow> 'a list \<Rightarrow> 'a list" where
  "v8Sort cmp xs =
     (case xs of
        x0 # x1 # rest \<Rightarrow>
          (let descending = order cmp x1 x0 < 0;
               n = 2 + runLength descending cmp x1 rest;
               run = take n xs
           in binaryInsertion cmp (if descending then rev run else run) (drop n xs))
      | _ \<Rightarrow> xs)"

definition sample :: platform where
  "sample = \<lparr>newDate = utcDate, arraySort = v8Sort\<rparr>"

definition alert1 :: alert where
  "alert1 = \<lparr>created_at = ''2024-01-01 10:00:00'', hostname = ''h1'', metric = ''cpu_usage'',
     val = 90, message = ''high''\<rparr>"

definition alert2 :: alert where
  "alert2 = \<lparr>created_at = ''2024-01-01 10:00:01'', hostname = ''h2'', metric = ''mem_usage'',
     val = 50, message = ''ok''\<rparr>"

definition alert3 :: alert where
  "alert3 = \<lparr>created_at = ''2024-01-01 09:59:30'', hostname = ''h3'', metric = ''cpu_usage'',
     val = 85, message = []\<rparr>"

definition alert4 :: alert where
  "alert4 = \<lparr>created_at = ''2024-01-01T10:00:00'', hostname = ''h1'', metric = ''cpu_usage'',
     val = 70, message = []\<rparr>"

definition alert5 :: alert where
  "alert5 = \<lparr>created_at = ''2024-01-01 10:00:02'', hostname = ''h2'', metric = ''1'',
     val = 10, message = []\<rparr>"

definition alert6 :: alert where
  "alert6 = \<lparr>created_at = ''2024-01-01 10:00:00 UTC'', hostname = ''h1'', metric = ''cpu_usage'',
     val = 70, message = []\<rparr>"

definition alert7 :: alert where
  "alert7 = \<lparr>created_at = ''garbage'', hostname = ''h4'', metric = ''cpu_usage'',
     val = 60, message = []\<rparr>"

definition page1_response :: "entry list response" where
  "page1_response = Responded True (Parsed (JsonValue (Present [Record alert1])))"


section \<open>Notions used in the statements\<close>

text \<open>The time a record's timestamp denotes, where it is a valid date.\<close>

definition timeOf :: "platform \<Rightarrow> alert \<Rightarrow> int" where
  "timeOf pf a = (case newDate pf (created_at a) of Some t \<Rightarrow> t | None \<Rightarrow> 0)"

text \<open>
  What the language guarantees of \<open>Array.prototype.sort\<close>: the result is always a
  rearrangement of the array; and when the comparison function is the difference of a key of
  the elements (such a function is a consistent comparator), the result is ascending in that
  key and elements of equal key keep their relative order. With any other comparison
  function the order is left to the implementation.
\<close>

definition conforming :: "platform \<Rightarrow> bool" where
  "conforming pf \<longleftrightarrow>
     (\<forall>cmp xs. mset (arraySort pf cmp xs) = mset xs)
     \<and> (\<forall>cmp f xs. (\<forall>a \<in> set xs. \<forall>b \<in> set xs. cmp a b = Some (f a - f b)) \<longrightarrow>
           sorted (map f (arraySort pf cmp xs))
           \<and> (\<forall>k. filter (\<lambda>a. f a = k) (arraySort pf cmp xs) = filter (\<lambda>a. f a = k) xs))"

text \<open>
  The formatted metric name of a record as the string under which it is counted, and the
  order in which \<open>Object.keys\<close> lists given keys.
\<close>

definition formatted :: "alert \<Rightarrow> string" where
  "formatted a = toString (formatMetricName (metric a))"

definition keyOrder :: "string list \<Rightarrow> string list" where
  "keyOrder l = sort_key indexOf (filter isIndex l) @ filter (\<lambda>n. \<not> isIndex n) l"

text \<open>
  The live instances attached to a canvas, the global variable that belongs to a canvas, and
  the consistency of the two: live instances have distinct identities, all created earlier,
  each live instance is the one its canvas's variable refers to, and the two variables
  refer to different instances.
\<close>

definition chartsOn :: "canvas \<Rightarrow> page \<Rightarrow> chart list" where
  "chartsOn cv st = filter (\<lambda>c. chart_canvas c = cv) (live_charts st)"

definition slotOf :: "canvas \<Rightarrow> page \<Rightarrow> nat option" where
  "slotOf cv st = (if cv = CpuTrendCanvas then cpuTrendChart st else alertTypeChart st)"

definition consistent :: "page \<Rightarrow> bool" where
  "consistent st \<longleftrightarrow>
     distinct (map chart_id (live_charts st))
     \<and> list_all (\<lambda>c. chart_id c < next_chart_id st
                      \<and> slotOf (chart_canvas c) st = Some (chart_id c)) (live_charts st)
     \<and> (case cpuTrendChart st of
          Some i \<Rightarrow> i < next_chart_id st \<and> alertTypeChart st \<noteq> Some i
        | None \<Rightarrow> True)
     \<and> (case alertTypeChart st of Some i \<Rightarrow> i < next_chart_id st | None \<Rightarrow> True)"

text \<open>
  The instances that are alive after a sequence of constructions and destructions, with
  their canvases, and those of them on a given canvas.
\<close>

fun replay :: "chart_event \<Rightarrow> (nat \<times> canvas) list \<Rightarrow> (nat \<times> canvas) list" where
  "replay (Created i cv) live = live @ [(i, cv)]"
| "replay (Destroyed i) live = filter (\<lambda>p. fst p \<noteq> i) live"

definition liveAfter :: "chart_event list \<Rightarrow> (nat \<times> canvas) list" where
  "liveAfter events = fold replay events []"

definition onCanvas :: "canvas \<Rightarrow> (nat \<times> canvas) list \<Rightarrow> (nat \<times> canvas) list" where
  "onCanvas cv live = filter (\<lambda>p. snd p = cv) live"

text \<open>
  A page is logged as it is when the log accounts for the live instances and at no moment
  of the log a canvas held two of them.
\<close>

definition logged :: "page \<Rightarrow> bool" where
  "logged st \<longleftrightarrow>
     liveAfter (chart_log st) = map (\<lambda>c. (chart_id c, chart_canvas c)) (live_charts st)
     \<and> (\<forall>n cv. length (onCanvas cv (liveAfter (take n (chart_log st)))) \<le> 1)"

text \<open>
  The variables are attached when each refers to the instance alive on its canvas, if there
  is one, and is unset otherwise. A page is sound when it is consistent, logged and attached.
\<close>

definition attached :: "page \<Rightarrow> bool" where
  "attached st \<longleftrightarrow>
     map chart_id (chartsOn CpuTrendCanvas st)
       = (case cpuTrendChart st of Some i \<Rightarrow> [i] | None \<Rightarrow> [])
     \<and> map chart_id (chartsOn AlertTypeCanvas st)
       = (case alertTypeChart st of Some i \<Rightarrow> [i] | None \<Rightarrow> [])"

definition sound :: "page \<Rightarrow> bool" where
  "sound st \<longleftrightarrow> consistent st \<and> logged st \<and> attached st"

section \<open>Failing operations and the rendered snapshot\<close>



section \<open>Theorems\<close>

subsection \<open>Stores of records and stores with a null element\<close>

lemma elements_records: "elements prop (map Record C) = Inr C"
  by (induction C) simp_all

lemma elements_null: "elements prop (map Record xs @ Null # rest) = Inl (nullError prop)"
  by (induction xs) simp_all

lemma appendRows_records:
  "appendRows (map Record C) st = st\<lparr>tbody := tbody st @ map tableRow C\<rparr>"
  by (induction C arbitrary: st) simp_all


lemma appendRows_keeps [simp]:
  "alertsData (appendRows es st) = alertsData st"
  "summary (appendRows es st) = summary st"
  "notifications (appendRows es st) = notifications st"
  "console (appendRows es st) = console st"
  "requests (appendRows es st) = requests st"
  "live_charts (appendRows es st) = live_charts st"
  "cpuTrendChart (appendRows es st) = cpuTrendChart st"
  "alertTypeChart (appendRows es st) = alertTypeChart st"
  "next_chart_id (appendRows es st) = next_chart_id st"
  "chart_log (appendRows es st) = chart_log st"
  by (induction es st rule: appendRows.induct) simp_all

subsection \<open>Summary metrics\<close>

lemma set_fold_newSet:
  "set (fold (\<lambda>x acc. if x \<in> set acc then acc else acc @ [x]) xs acc) = set acc \<union> set xs"
  by (induction xs arbitrary: acc) auto

lemma distinct_fold_newSet:
  "distinct acc \<Longrightarrow> distinct (fold (\<lambda>x acc. if x \<in> set acc then acc else acc @ [x]) xs acc)"
  by (induction xs arbitrary: acc) auto

lemma set_newSet: "set (newSet xs) = set xs"
  by (simp add: newSet_def set_fold_newSet)

lemma distinct_newSet: "distinct (newSet xs)"
  by (simp add: newSet_def distinct_fold_newSet)

lemma length_newSet: "length (newSet xs) = card (set xs)"
  using distinct_card [OF distinct_newSet, of xs] by (simp add: set_newSet)

lemma WARNING_neq_NORMAL: "WARNING \<noteq> NORMAL"
  by (simp add: WARNING_def NORMAL_def)

text \<open>
  Claim C1. For every alert collection \<open>C\<close>, \<open>updateCoreMetrics\<close> shows as total the size of
  \<open>C\<close>, as number of error hosts the number of distinct hostnames that have a record with
  value above 80, as normal count the number of records with value at most 80, and as
  system status the warning text exactly when the number of error hosts is positive
  (the normal text otherwise). For the empty collection it shows 0, 0, 0 and the normal
  text.
\<close>

theorem updateCoreMetrics_counts:
  fixes st :: page and C :: "alert list"
  defines "m \<equiv> summary (updateCoreMetrics (st\<lparr>alertsData := map Record C\<rparr>))"
  shows "total_alerts m = length C
    \<and> error_hosts m = card {h. \<exists>a \<in> set C. hostname a = h \<and> val a > 80}
    \<and> normal_count m = card {i. i < length C \<and> val (C ! i) \<le> 80}
    \<and> (system_status m = WARNING \<longleftrightarrow> error_hosts m > 0)
    \<and> (system_status m = NORMAL \<longleftrightarrow> error_hosts m = 0)
    \<and> (C = [] \<longrightarrow> total_alerts m = 0 \<and> error_hosts m = 0 \<and> normal_count m = 0
          \<and> system_status m = NORMAL)"
proof -
  let ?hosts = "map hostname (filter (\<lambda>a. val a > 80) C)"
  have set_hosts: "set ?hosts = {h. \<exists>a \<in> set C. hostname a = h \<and> val a > 80}"
    by auto
  have eh: "error_hosts m = card {h. \<exists>a \<in> set C. hostname a = h \<and> val a > 80}"
    unfolding m_def updateCoreMetrics_def Let_def
    using length_newSet [of ?hosts] set_hosts by (simp add: elements_records)
  have tot: "total_alerts m = length C"
    by (simp add: m_def updateCoreMetrics_def Let_def elements_records)
  have nc: "normal_count m = card {i. i < length C \<and> val (C ! i) \<le> 80}"
    by (simp add: m_def updateCoreMetrics_def Let_def elements_records length_filter_conv_card)
  have stat: "system_status m = (if error_hosts m > 0 then WARNING else NORMAL)"
    by (simp add: m_def updateCoreMetrics_def Let_def elements_records)
  have c4: "system_status m = WARNING \<longleftrightarrow> error_hosts m > 0"
    using WARNING_neq_NORMAL by (simp add: stat)
  have c5: "system_status m = NORMAL \<longleftrightarrow> error_hosts m = 0"
    using WARNING_neq_NORMAL by (simp add: stat)
  have c6: "C = [] \<longrightarrow> total_alerts m = 0 \<and> error_hosts m = 0 \<and> normal_count m = 0
          \<and> system_status m = NORMAL"
    by (simp add: m_def updateCoreMetrics_def Let_def newSet_def)
  show ?thesis
    using eh tot nc c4 c5 c6 by blast
qed

theorem updateCoreMetrics_counts_witness:
  "total_alerts (summary (updateCoreMetrics (initial\<lparr>alertsData := map Record []\<rparr>))) = 0
   \<and> error_hosts (summary (updateCoreMetrics (initial\<lparr>alertsData := map Record []\<rparr>))) = 0
   \<and> normal_count (summary (updateCoreMetrics (initial\<lparr>alertsData := map Record []\<rparr>))) = 0
   \<and> system_status (summary (updateCoreMetrics (initial\<lparr>alertsData := map Record []\<rparr>)))
       = NORMAL
   \<and> total_alerts (summary (updateCoreMetrics
        (initial\<lparr>alertsData := map Record [alert1, alert2]\<rparr>))) = 2
   \<and> system_status (summary (updateCoreMetrics
        (initial\<lparr>alertsData := map Record [alert1, alert2]\<rparr>))) = WARNING"
proof -
  have h: "error_hosts (summary (updateCoreMetrics
      (initial\<lparr>alertsData := map Record [alert1, alert2]\<rparr>))) > 0"
    by (simp add: updateCoreMetrics_def Let_def newSet_def alert1_def alert2_def)
  show ?thesis
    using h updateCoreMetrics_counts [where st = initial and C = "[]"]
      updateCoreMetrics_counts [where st = initial and C = "[alert1, alert2]"]
    by simp
qed

subsection \<open>What each step leaves alone\<close>

lemma renderAlertsTable_keeps [simp]:
  "alertsData (renderAlertsTable st) = alertsData st"
  "summary (renderAlertsTable st) = summary st"
  "notifications (renderAlertsTable st) = notifications st"
  "console (renderAlertsTable st) = console st"
  "requests (renderAlertsTable st) = requests st"
  "live_charts (renderAlertsTable st) = live_charts st"
  "cpuTrendChart (renderAlertsTable st) = cpuTrendChart st"
  "alertTypeChart (renderAlertsTable st) = alertTypeChart st"
  "next_chart_id (renderAlertsTable st) = next_chart_id st"
  "chart_log (renderAlertsTable st) = chart_log st"
  by (simp_all add: renderAlertsTable_def)

lemma updateCoreMetrics_keeps [simp]:
  "alertsData (updateCoreMetrics st) = alertsData st"
  "tbody (updateCoreMetrics st) = tbody st"
  "notifications (updateCoreMetrics st) = notifications st"
  "console (updateCoreMetrics st) = console st"
  "requests (updateCoreMetrics st) = requests st"
  "live_charts (updateCoreMetrics st) = live_charts st"
  "cpuTrendChart (updateCoreMetrics st) = cpuTrendChart st"
  "alertTypeChart (updateCoreMetrics st) = alertTypeChart st"
  "next_chart_id (updateCoreMetrics st) = next_chart_id st"
  "chart_log (updateCoreMetrics st) = chart_log st"
  by (simp_all add: updateCoreMetrics_def Let_def split: sum.splits)

lemma renderCharts_keeps [simp]:
  "alertsData (renderCharts pf st) = alertsData st"
  "tbody (renderCharts pf st) = tbody st"
  "summary (renderCharts pf st) = summary st"
  "notifications (renderCharts pf st) = notifications st"
  "console (renderCharts pf st) = console st"
  "requests (renderCharts pf st) = requests st"
  by (simp_all add: renderCharts_def renderAlertTypeChart_def renderCpuTrendChart_def
      newChart_def destroy_def Let_def split: option.splits sum.splits)

lemma render_keeps [simp]:
  "alertsData (render pf st) = alertsData st"
  "notifications (render pf st) = notifications st"
  "console (render pf st) = console st"
  "requests (render pf st) = requests st"
  by (simp_all add: render_def andThen_def)

lemma thrown_renderAlertsTable_records:
  "alertsData st = map Record C \<Longrightarrow> thrown (renderAlertsTable st) = thrown st"
  by (simp add: renderAlertsTable_def appendRows_records)

lemma thrown_updateCoreMetrics_records:
  "alertsData st = map Record C \<Longrightarrow> thrown (updateCoreMetrics st) = thrown st"
  by (simp add: updateCoreMetrics_def Let_def elements_records)

lemma thrown_renderCharts_records:
  "alertsData st = map Record C \<Longrightarrow> thrown (renderCharts pf st) = thrown st"
  by (simp add: renderCharts_def renderAlertTypeChart_def renderCpuTrendChart_def
      newChart_def destroy_def Let_def elements_records split: option.splits)

lemma render_records:
  assumes "alertsData st = map Record C" and "thrown st = None"
  shows "render pf st = renderCharts pf (updateCoreMetrics (renderAlertsTable st))"
    and "thrown (render pf st) = None"
proof -
  have t1: "thrown (renderAlertsTable st) = None"
    using assms thrown_renderAlertsTable_records by simp
  have t2: "thrown (updateCoreMetrics (renderAlertsTable st)) = None"
    using assms t1 thrown_updateCoreMetrics_records [of "renderAlertsTable st" C] by simp
  show "render pf st = renderCharts pf (updateCoreMetrics (renderAlertsTable st))"
    by (simp add: render_def andThen_def t1 t2)
  then show "thrown (render pf st) = None"
    using assms t2
      thrown_renderCharts_records [of "updateCoreMetrics (renderAlertsTable st)" C pf]
    by simp
qed


subsection \<open>Failing operations\<close>






lemma refreshAlerts_records:
  assumes "thrown st = None"
  shows "refreshAlerts pf (Responded True (Parsed (JsonValue (Present (map Record C))))) st
     = renderCharts pf (updateCoreMetrics (renderAlertsTable
         ((fetch \<lparr>req_method = ''GET'', req_url = ''/alerts/'', req_content_type = [],
                   req_body = None\<rparr> st)\<lparr>alertsData := map Record C\<rparr>)))"
proof -
  let ?st1 = "(fetch \<lparr>req_method = ''GET'', req_url = ''/alerts/'', req_content_type = [],
                   req_body = None\<rparr> st)\<lparr>alertsData := map Record C\<rparr>"
  have a: "alertsData ?st1 = map Record C" by simp
  have t: "thrown ?st1 = None" using assms by (simp add: fetch_def)
  show ?thesis
    using render_records [OF a t, of pf]
    by (simp add: refreshAlerts_def receive_def orEmpty_def Let_def)
qed



subsection \<open>The installed collection\<close>

text \<open>
  Claim C8. After a successful load or search the alert store holds \<open>result.alerts\<close> when
  the field is present, and the empty collection when the field is absent (or \<open>null\<close>); the
  store is a collection in every case.
\<close>

theorem installed_collection:
  "alertsData (refreshAlerts pd (Responded True (Parsed (JsonValue f))) st)
     = (case f of Present xs \<Rightarrow> xs | NullField \<Rightarrow> [] | Absent \<Rightarrow> [])
   \<and> alertsData (searchAlerts pd h s e (Responded True (Parsed (JsonValue f))) st)
     = (case f of Present xs \<Rightarrow> xs | NullField \<Rightarrow> [] | Absent \<Rightarrow> [])"
  by (simp add: refreshAlerts_def searchAlerts_def receive_def Let_def orEmpty_def
      window_alert_def caught_def console_error_def fetch_def
      split: field.splits option.splits)

subsection \<open>The table\<close>

text \<open>
  Claim C10. When the alert collection is empty, the table body is exactly one row of one
  cell that spans five columns and holds the text of "no alert data"; there is no data row.
\<close>

theorem empty_table_placeholder:
  assumes "alertsData st = []"
  shows "tbody (renderAlertsTable st)
           = [[\<lparr>colspan = 5, td_class = ''text-center'', content = Text text_no_data\<rparr>]]
    \<and> length (tbody (renderAlertsTable st)) = 1
    \<and> tbody (refreshAlerts pd (Responded True (Parsed (JsonValue (Present [])))) st0)
           = [[\<lparr>colspan = 5, td_class = ''text-center'', content = Text text_no_data\<rparr>]]"
proof -
  have r: "tbody (render pd (st1\<lparr>alertsData := []\<rparr>))
      = [[\<lparr>colspan = 5, td_class = ''text-center'', content = Text text_no_data\<rparr>]]" for st1
    by (simp add: render_def andThen_def renderAlertsTable_def)
  have "tbody (refreshAlerts pd (Responded True (Parsed (JsonValue (Present [])))) st0)
           = [[\<lparr>colspan = 5, td_class = ''text-center'', content = Text text_no_data\<rparr>]]"
    using r
    by (simp add: refreshAlerts_def receive_def Let_def orEmpty_def caught_def
        console_error_def window_alert_def split: option.splits)
  then show ?thesis
    using assms by (simp add: renderAlertsTable_def)
qed

theorem empty_table_placeholder_witness:
  "alertsData initial = []
   \<and> tbody (renderAlertsTable initial)
        = [[\<lparr>colspan = 5, td_class = ''text-center'', content = Text text_no_data\<rparr>]]
   \<and> length (tbody (renderAlertsTable initial)) = 1"
proof -
  have e: "alertsData initial = []"
    by (simp add: initial_def)
  show ?thesis
    using e empty_table_placeholder [OF e, of sample initial] by simp
qed

subsection \<open>The metric formatter\<close>

lemma formatMetricName_cases:
  "formatMetricName m =
     (if m = ''cpu_usage'' then Str label_cpu_usage
      else if m = ''mem_usage'' then Str label_mem_usage
      else if m = ''disk_usage'' then Str label_disk_usage
      else if m = ''network_in'' then Str label_network_in
      else if m = ''network_out'' then Str label_network_out
      else if m \<in> set objectPrototype then Inherited m
      else Str m)"
  by (simp add: formatMetricName_def getProperty_def metricMap_def truthy_def
      label_cpu_usage_def label_mem_usage_def label_disk_usage_def label_network_in_def
      label_network_out_def)

lemma formatMetricName_table:
  "formatMetricName ''cpu_usage'' = Str label_cpu_usage"
  "formatMetricName ''mem_usage'' = Str label_mem_usage"
  "formatMetricName ''disk_usage'' = Str label_disk_usage"
  "formatMetricName ''network_in'' = Str label_network_in"
  "formatMetricName ''network_out'' = Str label_network_out"
  by (simp_all add: formatMetricName_def getProperty_def metricMap_def truthy_def
      label_cpu_usage_def label_mem_usage_def label_disk_usage_def label_network_in_def
      label_network_out_def)

text \<open>
  Claim C7. The formatter returns the label of the table for the five known metrics, and
  the identifier itself for every other identifier. The code does not: the table is an
  object literal, and for an identifier that names a member of \<open>Object.prototype\<close> the read
  \<open>map[metric]\<close> finds the inherited member, which is truthy, so the formatter returns that
  member and not the identifier. The theorem evaluates the formatter at \<open>constructor\<close>.
\<close>

theorem formatMetricName_inherited:
  "map_of metricMap ''constructor'' = None
   \<and> formatMetricName ''constructor'' = Inherited ''constructor''
   \<and> formatMetricName ''constructor'' \<noteq> Str ''constructor''
   \<and> toString (formatMetricName ''constructor'') = ''function Object() { [native code] }''"
  by (simp add: formatMetricName_def getProperty_def metricMap_def truthy_def objectPrototype_def
      toString_def)

subsection \<open>The search request\<close>

lemma requests_searchAlerts:
  "requests (searchAlerts pd h s e resp st) = requests st
     @ [\<lparr>req_method = ''GET'', req_url = ''/alerts/search?'' @ paramsToString (searchParams h s e),
         req_content_type = ''application/json'', req_body = None\<rparr>]"
  by (simp add: searchAlerts_def Let_def caught_def fetch_def console_error_def window_alert_def
      del: append.simps split: sum.splits option.splits)

text \<open>
  Claim C6, as amended. A search issues exactly one GET request to
  \<open>/alerts/search?\<close> followed by the encoded parameters. The parameters are, in this order:
  \<open>hostname\<close> with the trimmed value of the hostname field when that trimmed value is not
  empty; \<open>start_time\<close> with the start field as entered, not trimmed, when it is not empty;
  \<open>end_time\<close> with the end field as entered, not trimmed, when it is not empty. The address
  is never the one of the fetch-all route, and with all three criteria empty it is
  \<open>/alerts/search?\<close> with no parameter.
\<close>

theorem search_request:
  "requests (searchAlerts pd h s e resp st) = requests st
     @ [\<lparr>req_method = ''GET'', req_url = ''/alerts/search?'' @ paramsToString (searchParams h s e),
         req_content_type = ''application/json'', req_body = None\<rparr>]
   \<and> searchParams h s e =
        (if trim h = [] then [] else [(''hostname'', trim h)])
        @ (if s = [] then [] else [(''start_time'', s)])
        @ (if e = [] then [] else [(''end_time'', e)])
   \<and> ''/alerts/search?'' @ paramsToString (searchParams h s e) \<noteq> ''/alerts/''
   \<and> (trim h = [] \<and> s = [] \<and> e = [] \<longrightarrow>
        ''/alerts/search?'' @ paramsToString (searchParams h s e) = ''/alerts/search?'')"
proof -
  have empty: "trim h = [] \<and> s = [] \<and> e = [] \<longrightarrow>
        ''/alerts/search?'' @ paramsToString (searchParams h s e) = ''/alerts/search?''"
    by (simp add: searchParams_def paramsToString_def)
  have params: "searchParams h s e =
        (if trim h = [] then [] else [(''hostname'', trim h)])
        @ (if s = [] then [] else [(''start_time'', s)])
        @ (if e = [] then [] else [(''end_time'', e)])"
    by (simp add: searchParams_def Let_def)
  have neq: "''/alerts/search?'' @ paramsToString (searchParams h s e) \<noteq> ''/alerts/''"
    by simp
  show ?thesis
    using requests_searchAlerts [of pd h s e resp st] empty params neq
    by blast
qed

theorem search_request_witness:
  "trim [] = [] 
   \<and> requests (searchAlerts sample [] [] [] (Rejected []) initial)
       = [\<lparr>req_method = ''GET'', req_url = ''/alerts/search?'',
           req_content_type = ''application/json'', req_body = None\<rparr>]
   \<and> searchParams ''  web-1 '' [] ''2024-01-02T00:00''
       = [(''hostname'', ''web-1''), (''end_time'', ''2024-01-02T00:00'')]"
proof -
  have t: "trim [] = []" by code_simp
  have t2: "trim ''  web-1 '' = ''web-1''" by code_simp
  have i: "requests initial = []" by (simp add: initial_def)
  have p: "paramsToString (searchParams [] [] []) = []"
    by (simp add: searchParams_def paramsToString_def t)
  show ?thesis
    using search_request [of sample "[]" "[]" "[]" "Rejected []" initial]
      search_request [of sample "''  web-1 ''" "[]" "''2024-01-02T00:00''" "Rejected []" initial]
    by (simp add: t t2 i p)
qed

text \<open>
  The claim as stated fails: a start time with a leading space is sent with the space.
\<close>

theorem search_untrimmed_counterexample:
  "searchParams [] '' 2024-01-01T10:00'' [] = [(''start_time'', '' 2024-01-01T10:00'')]
   \<and> trim '' 2024-01-01T10:00'' \<noteq> '' 2024-01-01T10:00''
   \<and> requests (searchAlerts sample [] '' 2024-01-01T10:00'' [] (Rejected []) initial)
       = [\<lparr>req_method = ''GET'', req_url = ''/alerts/search?start_time=+2024-01-01T10%3A00'',
           req_content_type = ''application/json'', req_body = None\<rparr>]"
proof -
  have a: "searchParams [] '' 2024-01-01T10:00'' [] = [(''start_time'', '' 2024-01-01T10:00'')]"
    by code_simp
  have b: "trim '' 2024-01-01T10:00'' = ''2024-01-01T10:00''"
    by code_simp
  have c: "paramsToString [(''start_time'', '' 2024-01-01T10:00'')] = ''start_time=+2024-01-01T10%3A00''"
    by code_simp
  show ?thesis
    using requests_searchAlerts [of sample "[]" "'' 2024-01-01T10:00''" "[]" "Rejected []" initial]
    by (simp add: a b c initial_def)
qed

subsection \<open>The CPU trend\<close>

lemma take_drop_mset: "mset (take k d) + mset (drop k d) = mset d"
proof -
  have "mset (take k d @ drop k d) = mset (take k d) + mset (drop k d)"
    by (rule mset_append)
  then show ?thesis by (simp only: append_take_drop_id)
qed

lemma mset_insert_at: "mset (take k d @ p # drop k d) = add_mset p (mset d)"
  using take_drop_mset [of k d] by simp

lemma mset_binaryInsertion: "mset (binaryInsertion cmp d rest) = mset d + mset rest"
  by (induction rest arbitrary: d) (simp_all add: Let_def take_drop_mset)

lemma mset_v8Sort: "mset (v8Sort cmp xs) = mset xs"
proof (cases xs)
  case Nil
  then show ?thesis by (simp add: v8Sort_def)
next
  case (Cons x0 tl0)
  show ?thesis
  proof (cases tl0)
    case Nil
    with Cons show ?thesis by (simp add: v8Sort_def)
  next
    case (Cons x1 rest)
    have split: "mset (take n xs) + mset (drop n xs) = mset xs" for n
      by (rule take_drop_mset)
    define n where "n = 2 + runLength (order cmp x1 x0 < 0) cmp x1 rest"
    have "v8Sort cmp xs = binaryInsertion cmp
        (if order cmp x1 x0 < 0 then rev (take n xs) else take n xs) (drop n xs)"
      unfolding \<open>xs = x0 # tl0\<close> Cons n_def by (simp add: v8Sort_def Let_def)
    then show ?thesis
      using split [of n] by (simp add: mset_binaryInsertion)
  qed
qed

lemma binarySearch_spec:
  assumes "sorted (map f d)" and "\<forall>x \<in> set d. order cmp p x = f p - f x"
    and "left \<le> right" and "right \<le> length d"
    and "\<forall>i < left. f (d ! i) \<le> f p"
    and "\<forall>i. right \<le> i \<and> i < length d \<longrightarrow> f p < f (d ! i)"
  shows "binarySearch cmp p d left right \<le> length d
    \<and> (\<forall>i < binarySearch cmp p d left right. f (d ! i) \<le> f p)
    \<and> (\<forall>i. binarySearch cmp p d left right \<le> i \<and> i < length d \<longrightarrow> f p < f (d ! i))"
  using assms
proof (induction cmp p d left right rule: binarySearch.induct)
  case (1 cmp pivot xs left right)
  show ?case
  proof (cases "left < right")
    case False
    then have "binarySearch cmp pivot xs left right = left"
      by (subst binarySearch.simps) simp
    moreover have "left = right" using False "1.prems"(3) by simp
    ultimately show ?thesis using "1.prems" by auto
  next
    case True
    define mid where "mid = left + (right - left) div 2"
    have mid: "left \<le> mid" "mid < right" "mid < length xs"
      using True "1.prems"(4) by (auto simp: mid_def)
    have ord: "order cmp pivot (xs ! mid) = f pivot - f (xs ! mid)"
      using "1.prems"(2) mid(3) by simp
    have sorted_nth: "f (xs ! i) \<le> f (xs ! j)" if "i \<le> j" "j < length xs" for i j
      using "1.prems"(1) that by (simp add: sorted_iff_nth_mono)
    show ?thesis
    proof (cases "order cmp pivot (xs ! mid) < 0")
      case less: True
      then have eq: "binarySearch cmp pivot xs left right = binarySearch cmp pivot xs left mid"
        using True by (subst binarySearch.simps) (simp add: mid_def Let_def)
      have after: "\<forall>i. mid \<le> i \<and> i < length xs \<longrightarrow> f pivot < f (xs ! i)"
      proof (intro allI impI)
        fix i assume i: "mid \<le> i \<and> i < length xs"
        have "f pivot < f (xs ! mid)" using less ord by simp
        also have "\<dots> \<le> f (xs ! i)" using i sorted_nth by simp
        finally show "f pivot < f (xs ! i)" .
      qed
      show ?thesis
        unfolding eq
        using "1.IH"(1) [OF True mid_def less "1.prems"(1) "1.prems"(2) mid(1) _ "1.prems"(5) after]
          mid(3) by simp
    next
      case geq: False
      then have eq: "binarySearch cmp pivot xs left right
          = binarySearch cmp pivot xs (mid + 1) right"
        using True by (subst binarySearch.simps) (simp add: mid_def Let_def)
      have before: "\<forall>i < mid + 1. f (xs ! i) \<le> f pivot"
      proof (intro allI impI)
        fix i assume i: "i < mid + 1"
        have "f (xs ! i) \<le> f (xs ! mid)" using i mid(3) sorted_nth by simp
        also have "\<dots> \<le> f pivot" using geq ord by simp
        finally show "f (xs ! i) \<le> f pivot" .
      qed
      show ?thesis
        unfolding eq
        using "1.IH"(2) [OF True mid_def geq "1.prems"(1) "1.prems"(2) _ "1.prems"(4) before
            "1.prems"(6)] mid(2) by simp
    qed
  qed
qed

lemma filter_key_unique:
  "distinct (map f xs) \<Longrightarrow> x \<in> set xs \<Longrightarrow> filter (\<lambda>y. f x = f y) xs = [x]"
proof (induction xs)
  case Nil
  then show ?case by simp
next
  case (Cons a xs)
  show ?case
  proof (cases "x = a")
    case True
    have "\<forall>y \<in> set xs. f a \<noteq> f y" using Cons.prems(1) by auto
    then have "filter (\<lambda>y. f a = f y) xs = []" by (simp add: filter_empty_conv)
    with True show ?thesis by simp
  next
    case False
    then have "x \<in> set xs" using Cons.prems(2) by simp
    moreover have "f a \<notin> f ` set xs" using Cons.prems(1) by simp
    then have "f x \<noteq> f a" using \<open>x \<in> set xs\<close> by (metis imageI)
    ultimately show ?thesis using Cons by simp
  qed
qed

lemma insert_at_sort_key:
  assumes d: "d = sort_key f P"
    and k: "k \<le> length d" "\<forall>i < k. f (d ! i) \<le> f p"
      "\<forall>i. k \<le> i \<and> i < length d \<longrightarrow> f p < f (d ! i)"
  shows "take k d @ p # drop k d = sort_key f (P @ [p])"
proof -
  have sd: "sorted (map f d)" by (simp add: d)
  have before: "\<forall>x \<in> set (take k d). f x \<le> f p"
    using k(1) k(2) by (auto simp: in_set_conv_nth)
  have after: "\<forall>x \<in> set (drop k d). f p < f x"
    using k(3) by (auto simp: in_set_conv_nth)
  have "sorted (map f (take k d @ drop k d))" using sd by simp
  then have parts: "sorted (map f (take k d))" "sorted (map f (drop k d))"
    unfolding map_append sorted_append by auto
  have s: "sorted (map f (take k d @ p # drop k d))"
  proof -
    have "f x \<le> f y" if "x \<in> set (take k d)" "y \<in> set (drop k d)" for x y
    proof -
      have a: "f x \<le> f p" using before that(1) by blast
      have b: "f p < f y" using after that(2) by blast
      show ?thesis using a b by (meson le_less_trans less_imp_le)
    qed
    then show ?thesis
      using parts before after by (auto simp: sorted_append)
  qed
  have m: "mset (take k d @ p # drop k d) = mset (P @ [p])"
    unfolding mset_insert_at by (simp add: d)
  have fd: "filter Q d = filter Q (take k d) @ filter Q (drop k d)" for Q
    using filter_append [of Q "take k d" "drop k d"] by simp
  have st: "filter (\<lambda>y. f x = f y) (take k d @ p # drop k d)
      = filter (\<lambda>y. f x = f y) (P @ [p])" for x
  proof -
    have fP: "filter (\<lambda>y. f x = f y) P = filter (\<lambda>y. f x = f y) d"
    proof -
      have "filter (\<lambda>y. f y = f x) (sort_key f P) = filter (\<lambda>y. f y = f x) P"
        by (rule sort_key_stable)
      moreover have "(\<lambda>y. f y = f x) = (\<lambda>y. f x = f y)" by auto
      ultimately show ?thesis by (simp add: d)
    qed
    show ?thesis
    proof (cases "f x = f p")
      case True
      have "filter (\<lambda>y. f x = f y) (drop k d) = []"
        using after True by (auto simp: filter_empty_conv)
      then show ?thesis
        using True fP fd [of "\<lambda>y. f x = f y"] by simp
    next
      case False
      then show ?thesis
        using fP fd [of "\<lambda>y. f x = f y"] by simp
    qed
  qed
  show ?thesis
    by (rule properties_for_sort_key [OF m st s, symmetric])
qed


lemma binaryInsertion_sort_key:
  assumes "\<forall>a \<in> set P \<union> set rest. \<forall>b \<in> set P \<union> set rest. cmp a b = Some (f a - f b)"
  shows "binaryInsertion cmp (sort_key f P) rest = sort_key f (P @ rest)"
  using assms
proof (induction rest arbitrary: P)
  case Nil
  then show ?case by simp
next
  case (Cons p rest)
  let ?d = "sort_key f P"
  let ?k = "binarySearch cmp p ?d 0 (length ?d)"
  have ord: "\<forall>x \<in> set ?d. order cmp p x = f p - f x"
    using Cons.prems by (simp add: order_def)
  have spec: "?k \<le> length ?d \<and> (\<forall>i < ?k. f (?d ! i) \<le> f p)
      \<and> (\<forall>i. ?k \<le> i \<and> i < length ?d \<longrightarrow> f p < f (?d ! i))"
    by (rule binarySearch_spec [OF _ ord]) simp_all
  have ins: "take ?k ?d @ p # drop ?k ?d = sort_key f (P @ [p])"
    using spec by (intro insert_at_sort_key) auto
  have "binaryInsertion cmp ?d (p # rest) = binaryInsertion cmp (sort_key f (P @ [p])) rest"
    by (simp only: binaryInsertion.simps Let_def ins)
  also have "\<dots> = sort_key f ((P @ [p]) @ rest)"
    using Cons.prems by (intro Cons.IH) auto
  finally show ?case by simp
qed

lemma run_ascending:
  assumes "\<forall>a \<in> set (prev # xs). \<forall>b \<in> set (prev # xs). cmp a b = Some (f a - f b)"
  shows "sorted (map f (prev # take (runLength False cmp prev xs) xs))"
  using assms
proof (induction xs arbitrary: prev)
  case Nil
  then show ?case by simp
next
  case (Cons x xs)
  have o: "order cmp x prev = f x - f prev"
    using Cons.prems by (simp add: order_def)
  show ?case
  proof (cases "order cmp x prev < 0")
    case True
    then show ?thesis by simp
  next
    case False
    have "sorted (map f (x # take (runLength False cmp x xs) xs))"
      using Cons.prems by (intro Cons.IH) auto
    moreover have "f prev \<le> f x" using False o by simp
    ultimately show ?thesis
      using False by (auto intro: order_trans)
  qed
qed

lemma run_descending:
  assumes "\<forall>a \<in> set (prev # xs). \<forall>b \<in> set (prev # xs). cmp a b = Some (f a - f b)"
  shows "sorted_wrt (\<lambda>a b. f b < f a) (prev # take (runLength True cmp prev xs) xs)"
  using assms
proof (induction xs arbitrary: prev)
  case Nil
  then show ?case by simp
next
  case (Cons x xs)
  have o: "order cmp x prev = f x - f prev"
    using Cons.prems by (simp add: order_def)
  have tr: "transp (\<lambda>a b. f b < f a)"
    by (auto simp: transp_def)
  show ?case
  proof (cases "order cmp x prev \<ge> 0")
    case True
    then show ?thesis by simp
  next
    case False
    have "sorted_wrt (\<lambda>a b. f b < f a) (x # take (runLength True cmp x xs) xs)"
      using Cons.prems by (intro Cons.IH) auto
    moreover have "f x < f prev" using False o by simp
    ultimately show ?thesis
      using False by (auto intro: less_trans)
  qed
qed

lemma rev_descending_sort_key:
  assumes "sorted_wrt (\<lambda>a b. f b < f a) R"
  shows "rev R = sort_key f R"
proof -
  have asc: "sorted_wrt (\<lambda>a b. f a < f b) (rev R)"
    using assms by (simp add: sorted_wrt_rev)
  then have "sorted_wrt (<) (map f (rev R))"
    by (simp add: sorted_wrt_map)
  then have sd: "sorted (map f (rev R))" "distinct (map f (rev R))"
    by (simp_all add: strict_sorted_iff)
  have d: "distinct (map f R)"
    using sd(2) by (metis distinct_rev rev_map)
  have st: "filter (\<lambda>y. f x = f y) (rev R) = filter (\<lambda>y. f x = f y) R"
    if "x \<in> set (rev R)" for x
  proof -
    have "filter (\<lambda>y. f x = f y) R = [x]"
      using d that by (intro filter_key_unique) auto
    moreover have "filter (\<lambda>y. f x = f y) (rev R) = [x]"
      using sd(2) that by (intro filter_key_unique) auto
    ultimately show ?thesis by simp
  qed
  show ?thesis
    by (rule properties_for_sort_key [OF _ st sd(1), symmetric]) simp_all
qed

lemma v8Sort_sort_key:
  assumes "\<forall>a \<in> set xs. \<forall>b \<in> set xs. cmp a b = Some (f a - f b)"
  shows "v8Sort cmp xs = sort_key f xs"
proof (cases xs)
  case Nil
  then show ?thesis by (simp add: v8Sort_def)
next
  case (Cons x0 tl0)
  show ?thesis
  proof (cases tl0)
    case Nil
    with Cons show ?thesis by (simp add: v8Sort_def)
  next
    case (Cons x1 rest)
    define desc where "desc \<longleftrightarrow> order cmp x1 x0 < 0"
    define n where "n = 2 + runLength desc cmp x1 rest"
    define run where "run = take n xs"
    have xs: "xs = x0 # x1 # rest"
      using \<open>xs = x0 # tl0\<close> Cons by simp
    have v: "v8Sort cmp xs = binaryInsertion cmp (if desc then rev run else run) (drop n xs)"
      unfolding xs run_def n_def desc_def by (simp add: v8Sort_def Let_def)
    have rl: "runLength desc cmp x0 (x1 # rest) = Suc (runLength desc cmp x1 rest)"
      by (auto simp: desc_def)
    have run: "run = x0 # take (runLength desc cmp x0 (x1 # rest)) (x1 # rest)"
      unfolding run_def n_def xs rl by simp
    have key: "\<forall>a \<in> set (x0 # x1 # rest). \<forall>b \<in> set (x0 # x1 # rest). cmp a b = Some (f a - f b)"
      using assms xs by simp
    have sorted_run: "(if desc then rev run else run) = sort_key f run"
    proof (cases desc)
      case True
      have "sorted_wrt (\<lambda>a b. f b < f a) run"
        unfolding run using True run_descending [OF key] by simp
      then show ?thesis
        using True rev_descending_sort_key by auto
    next
      case False
      have "sorted (map f run)"
        unfolding run using False run_ascending [OF key] by simp
      then show ?thesis
        using False by (simp add: sort_key_id_if_sorted)
    qed
    have whole: "run @ drop n xs = xs"
      by (simp add: run_def)
    have "\<forall>a \<in> set run \<union> set (drop n xs). \<forall>b \<in> set run \<union> set (drop n xs).
        cmp a b = Some (f a - f b)"
      using assms set_append [of run "drop n xs"] unfolding whole by simp
    then have "binaryInsertion cmp (sort_key f run) (drop n xs) = sort_key f (run @ drop n xs)"
      by (rule binaryInsertion_sort_key)
    then show ?thesis
      unfolding v sorted_run whole .
  qed
qed

lemma conforming_sample: "conforming sample"
  unfolding conforming_def
proof (intro conjI allI impI)
  fix cmp :: "alert \<Rightarrow> alert \<Rightarrow> int option" and xs :: "alert list"
  show "mset (arraySort sample cmp xs) = mset xs"
    by (simp add: sample_def mset_v8Sort)
next
  fix cmp :: "alert \<Rightarrow> alert \<Rightarrow> int option" and f :: "alert \<Rightarrow> int" and xs :: "alert list"
  assume key: "\<forall>a \<in> set xs. \<forall>b \<in> set xs. cmp a b = Some (f a - f b)"
  have eq: "arraySort sample cmp xs = sort_key f xs"
    using v8Sort_sort_key [OF key] by (simp add: sample_def)
  show "sorted (map f (arraySort sample cmp xs))"
    unfolding eq by simp
  fix k
  show "filter (\<lambda>a. f a = k) (arraySort sample cmp xs) = filter (\<lambda>a. f a = k) xs"
    unfolding eq by (rule sort_key_stable)
qed


lemma dateDiff_key:
  assumes "\<forall>a \<in> set xs. newDate pf (created_at a) \<noteq> None"
  shows "\<forall>a \<in> set xs. \<forall>b \<in> set xs. dateDiff pf a b = Some (timeOf pf a - timeOf pf b)"
  using assms by (fastforce simp: dateDiff_def timeOf_def split: option.splits)

text \<open>
  Claim C2, as amended. On every platform whose sort does what the language guarantees, the
  CPU trend is built from exactly the records whose metric is \<open>cpu_usage\<close>, rearranged by
  the sort and cut to the last ten, so its length is the minimum of ten and the number of
  such records. When the timestamp of every one of these records is a valid date, the sort is
  the stable sort by time: the result is ascending in time and records of equal time keep
  their relative order. When a timestamp is not a valid date, the comparison is \<open>NaN\<close> and
  the order is left to the platform.
\<close>

theorem cpu_trend_sorted_last_ten:
  fixes pf :: platform and C :: "alert list"
  assumes "conforming pf"
  defines "cpu \<equiv> filter (\<lambda>a. metric a = ''cpu_usage'') C"
  defines "sorted_cpu \<equiv> arraySort pf (dateDiff pf) cpu"
  defines "out \<equiv> cpuAlerts pf C"
  shows "length out = min 10 (length cpu)
    \<and> out = drop (length cpu - 10) sorted_cpu
    \<and> mset sorted_cpu = mset cpu
    \<and> cpu_values (cpuData (processChartData pf C)) = map val out
    \<and> ((\<forall>a \<in> set cpu. newDate pf (created_at a) \<noteq> None) \<longrightarrow>
          sorted_cpu = sort_key (timeOf pf) cpu
        \<and> sorted (map (timeOf pf) sorted_cpu)
        \<and> (\<forall>k. filter (\<lambda>a. timeOf pf a = k) sorted_cpu
                = filter (\<lambda>a. timeOf pf a = k) cpu)
        \<and> sorted (map (timeOf pf) out))"
proof -
  have ms: "mset sorted_cpu = mset cpu"
    using assms(1) by (simp add: sorted_cpu_def conforming_def)
  have len_sorted: "length sorted_cpu = length cpu"
    using ms by (rule mset_eq_length)
  have out: "out = drop (length cpu - 10) sorted_cpu"
    by (simp add: out_def cpuAlerts_def slice_last_def cpu_def sorted_cpu_def len_sorted [unfolded sorted_cpu_def cpu_def])
  have len: "length out = min 10 (length cpu)"
    unfolding out by (simp add: len_sorted)
  have vals: "cpu_values (cpuData (processChartData pf C)) = map val out"
    by (simp add: processChartData_def Let_def out_def)
  have cond: "(\<forall>a \<in> set cpu. newDate pf (created_at a) \<noteq> None) \<longrightarrow>
          sorted_cpu = sort_key (timeOf pf) cpu
        \<and> sorted (map (timeOf pf) sorted_cpu)
        \<and> (\<forall>k. filter (\<lambda>a. timeOf pf a = k) sorted_cpu
                = filter (\<lambda>a. timeOf pf a = k) cpu)
        \<and> sorted (map (timeOf pf) out)"
  proof
    assume valid: "\<forall>a \<in> set cpu. newDate pf (created_at a) \<noteq> None"
    have key: "\<forall>a \<in> set cpu. \<forall>b \<in> set cpu.
        dateDiff pf a b = Some (timeOf pf a - timeOf pf b)"
      using valid by (rule dateDiff_key)
    have contract: "sorted (map (timeOf pf) sorted_cpu)
        \<and> (\<forall>k. filter (\<lambda>a. timeOf pf a = k) sorted_cpu = filter (\<lambda>a. timeOf pf a = k) cpu)"
      using assms(1) key unfolding conforming_def sorted_cpu_def by blast
    then have s: "sorted (map (timeOf pf) sorted_cpu)"
      and st: "\<forall>k. filter (\<lambda>a. timeOf pf a = k) sorted_cpu = filter (\<lambda>a. timeOf pf a = k) cpu"
      by blast+
    have st': "filter (\<lambda>a. timeOf pf x = timeOf pf a) sorted_cpu
        = filter (\<lambda>a. timeOf pf x = timeOf pf a) cpu" for x
    proof -
      have "(\<lambda>a. timeOf pf x = timeOf pf a) = (\<lambda>a. timeOf pf a = timeOf pf x)" by auto
      then show ?thesis using st by simp
    qed
    have eq: "sorted_cpu = sort_key (timeOf pf) cpu"
      by (rule properties_for_sort_key [OF ms st' s, symmetric])
    have "sorted (drop (length cpu - 10) (map (timeOf pf) sorted_cpu))"
      using s by (rule sorted_wrt_drop)
    then have so: "sorted (map (timeOf pf) out)"
      unfolding out by (simp add: drop_map)
    show "sorted_cpu = sort_key (timeOf pf) cpu
        \<and> sorted (map (timeOf pf) sorted_cpu)
        \<and> (\<forall>k. filter (\<lambda>a. timeOf pf a = k) sorted_cpu
                = filter (\<lambda>a. timeOf pf a = k) cpu)
        \<and> sorted (map (timeOf pf) out)"
      using eq s st so by blast
  qed
  show ?thesis
    using len out ms vals cond by blast
qed

lemma arraySort_sample: "arraySort sample = v8Sort"
  by (simp add: sample_def)

lemma utcDate_alert1: "newDate sample (created_at alert1) = Some 1704103200000"
  unfolding alert1_def sample_def by code_simp

lemma utcDate_alert3: "newDate sample (created_at alert3) = Some 1704103170000"
  unfolding alert3_def sample_def by code_simp

lemma utcDate_alert7: "newDate sample (created_at alert7) = None"
  unfolding alert7_def sample_def by code_simp

theorem cpu_trend_sorted_last_ten_witness:
  "conforming sample
   \<and> newDate sample (created_at alert1) \<noteq> None \<and> newDate sample (created_at alert3) \<noteq> None
   \<and> cpuAlerts sample [alert1, alert2, alert3] = [alert3, alert1]
   \<and> length (cpuAlerts sample [alert1, alert2, alert3]) = 2
   \<and> sorted (map (timeOf sample) (cpuAlerts sample [alert1, alert2, alert3]))"
proof -
  have m: "metric alert1 = ''cpu_usage''" "metric alert2 \<noteq> ''cpu_usage''"
    "metric alert3 = ''cpu_usage''"
    by (simp_all add: alert1_def alert2_def alert3_def)
  have f: "filter (\<lambda>a. metric a = ''cpu_usage'') [alert1, alert2, alert3] = [alert1, alert3]"
    by (simp add: m)
  have valid: "\<forall>a \<in> set (filter (\<lambda>a. metric a = ''cpu_usage'') [alert1, alert2, alert3]).
      newDate sample (created_at a) \<noteq> None"
    unfolding f by (simp add: utcDate_alert1 utcDate_alert3)
  have t: "timeOf sample alert1 = 1704103200000" "timeOf sample alert3 = 1704103170000"
    by (simp_all add: timeOf_def utcDate_alert1 utcDate_alert3)
  have th: "length (cpuAlerts sample [alert1, alert2, alert3]) = 2
      \<and> cpuAlerts sample [alert1, alert2, alert3] = sort_key (timeOf sample) [alert1, alert3]
      \<and> sorted (map (timeOf sample) (cpuAlerts sample [alert1, alert2, alert3]))"
    using valid cpu_trend_sorted_last_ten [OF conforming_sample, of "[alert1, alert2, alert3]"]
    unfolding f by simp
  have sk: "sort_key (timeOf sample) [alert1, alert3] = [alert3, alert1]"
    by (simp add: t)
  have out: "cpuAlerts sample [alert1, alert2, alert3] = [alert3, alert1]"
    using th sk by simp
  have v: "newDate sample (created_at alert1) \<noteq> None"
    "newDate sample (created_at alert3) \<noteq> None"
    by (simp_all add: utcDate_alert1 utcDate_alert3)
  show ?thesis
    using th out v conforming_sample by blast
qed

text \<open>
  The claim as stated fails: with a timestamp that is no date between them, a later record
  stays before an earlier one.
\<close>

theorem invalid_date_unsorted_counterexample:
  "cpuAlerts sample [alert1, alert7, alert3] = [alert1, alert7, alert3]
   \<and> newDate sample (created_at alert1) = Some 1704103200000
   \<and> newDate sample (created_at alert7) = None
   \<and> newDate sample (created_at alert3) = Some 1704103170000
   \<and> timeOf sample alert3 < timeOf sample alert1
   \<and> \<not> sorted (map (timeOf sample) (filter (\<lambda>a. newDate sample (created_at a) \<noteq> None)
          (cpuAlerts sample [alert1, alert7, alert3])))"
proof -
  have m: "metric alert1 = ''cpu_usage''" "metric alert7 = ''cpu_usage''"
    "metric alert3 = ''cpu_usage''"
    by (simp_all add: alert1_def alert7_def alert3_def)
  have d: "dateDiff sample alert7 alert1 = None" "dateDiff sample alert3 alert7 = None"
    by (simp_all add: dateDiff_def utcDate_alert7 utcDate_alert3)
  have out: "cpuAlerts sample [alert1, alert7, alert3] = [alert1, alert7, alert3]"
    by (simp add: cpuAlerts_def m arraySort_sample v8Sort_def Let_def order_def d slice_last_def)
  have t: "timeOf sample alert1 = 1704103200000" "timeOf sample alert3 = 1704103170000"
    by (simp_all add: timeOf_def utcDate_alert1 utcDate_alert3)
  show ?thesis
    by (simp add: out t utcDate_alert1 utcDate_alert3 utcDate_alert7)
qed

subsection \<open>The labels of the CPU trend\<close>

lemma split_head:
  "split sep s = takeWhile (\<lambda>c. c \<noteq> sep) s
     # (if sep \<in> set s then split sep (tl (dropWhile (\<lambda>c. c \<noteq> sep) s)) else [])"
  by (induction s) auto

lemma count_one_rest:
  "count_list s sep = 1 \<Longrightarrow> sep \<notin> set (tl (dropWhile (\<lambda>c. c \<noteq> sep) s))"
  by (induction s) (auto split: if_splits simp: count_list_0_iff)

lemma split_no_sep: "sep \<notin> set s \<Longrightarrow> split sep s = [s]"
  using split_head [of sep s] by (auto simp: takeWhile_eq_all_conv)

lemma split_second:
  assumes "sep \<in> set s"
  shows "\<exists>ws. split sep s = takeWhile (\<lambda>c. c \<noteq> sep) s
     # takeWhile (\<lambda>c. c \<noteq> sep) (tl (dropWhile (\<lambda>c. c \<noteq> sep) s)) # ws"
proof -
  have "split sep s = takeWhile (\<lambda>c. c \<noteq> sep) s # split sep (tl (dropWhile (\<lambda>c. c \<noteq> sep) s))"
    using split_head [of sep s] assms by simp
  then show ?thesis
    using split_head [of sep "tl (dropWhile (\<lambda>c. c \<noteq> sep) s)"] by simp
qed

lemma timeLabel_eq:
  "timeLabel a =
     (if CHR '' '' \<in> set (created_at a)
      then Some (takeWhile (\<lambda>c. c \<noteq> CHR '' '') (tl (dropWhile (\<lambda>c. c \<noteq> CHR '' '') (created_at a))))
      else None)"
proof (cases "CHR '' '' \<in> set (created_at a)")
  case True
  then obtain ws where "split CHR '' '' (created_at a) =
      takeWhile (\<lambda>c. c \<noteq> CHR '' '') (created_at a)
      # takeWhile (\<lambda>c. c \<noteq> CHR '' '') (tl (dropWhile (\<lambda>c. c \<noteq> CHR '' '') (created_at a))) # ws"
    using split_second [of "CHR '' ''" "created_at a"] by blast
  with True show ?thesis
    by (simp add: timeLabel_def elemAt_def)
next
  case False
  then show ?thesis
    by (simp add: timeLabel_def elemAt_def split_no_sep)
qed

text \<open>
  Claim C3, as amended. The label of a record of the CPU trend is the second piece of
  \<open>created_at\<close> split at spaces: the text between the first space and the next one (or the
  end). For a timestamp with exactly one space, as the format \<open>YYYY-MM-DD HH:MM:SS\<close> has,
  this is the whole text after the first space. For a timestamp with no space the formatting
  does not fail and the label is \<open>undefined\<close>; there is no fallback to the raw string.
\<close>

theorem cpu_labels_second_field:
  "cpu_labels (cpuData (processChartData pd C)) = map timeLabel (cpuAlerts pd C)
   \<and> (CHR '' '' \<notin> set (created_at a) \<longrightarrow> timeLabel a = None)
   \<and> (CHR '' '' \<in> set (created_at a) \<longrightarrow>
        timeLabel a = Some (takeWhile (\<lambda>c. c \<noteq> CHR '' '')
                        (tl (dropWhile (\<lambda>c. c \<noteq> CHR '' '') (created_at a)))))
   \<and> (count_list (created_at a) CHR '' '' = 1 \<longrightarrow>
        timeLabel a = Some (tl (dropWhile (\<lambda>c. c \<noteq> CHR '' '') (created_at a))))"
proof -
  have one: "count_list (created_at a) CHR '' '' = 1 \<longrightarrow>
        timeLabel a = Some (tl (dropWhile (\<lambda>c. c \<noteq> CHR '' '') (created_at a)))"
  proof
    assume c: "count_list (created_at a) CHR '' '' = 1"
    have mem: "CHR '' '' \<in> set (created_at a)"
    proof (rule ccontr)
      assume "CHR '' '' \<notin> set (created_at a)"
      then have "count_list (created_at a) CHR '' '' = 0"
        by simp
      with c show False by linarith
    qed
    have "\<forall>x \<in> set (tl (dropWhile (\<lambda>c. c \<noteq> CHR '' '') (created_at a))). x \<noteq> CHR '' ''"
      using count_one_rest [OF c] by blast
    then have all: "takeWhile (\<lambda>c. c \<noteq> CHR '' '') (tl (dropWhile (\<lambda>c. c \<noteq> CHR '' '') (created_at a)))
        = tl (dropWhile (\<lambda>c. c \<noteq> CHR '' '') (created_at a))"
      by (simp only: takeWhile_eq_all_conv)
    have "timeLabel a = Some (takeWhile (\<lambda>c. c \<noteq> CHR '' '')
        (tl (dropWhile (\<lambda>c. c \<noteq> CHR '' '') (created_at a))))"
      using mem by (simp only: timeLabel_eq if_True)
    then show "timeLabel a = Some (tl (dropWhile (\<lambda>c. c \<noteq> CHR '' '') (created_at a)))"
      by (simp only: all)
  qed
  have labels: "cpu_labels (cpuData (processChartData pd C)) = map timeLabel (cpuAlerts pd C)"
    by (simp add: processChartData_def Let_def)
  have none: "CHR '' '' \<notin> set (created_at a) \<longrightarrow> timeLabel a = None"
    by (simp add: timeLabel_eq)
  have some: "CHR '' '' \<in> set (created_at a) \<longrightarrow>
        timeLabel a = Some (takeWhile (\<lambda>c. c \<noteq> CHR '' '')
                        (tl (dropWhile (\<lambda>c. c \<noteq> CHR '' '') (created_at a))))"
    by (simp add: timeLabel_eq)
  show ?thesis
    using labels none some one by blast
qed

theorem cpu_labels_second_field_witness:
  "CHR '' '' \<in> set (created_at alert1) \<and> count_list (created_at alert1) CHR '' '' = 1
   \<and> timeLabel alert1 = Some ''10:00:00''
   \<and> CHR '' '' \<notin> set (created_at alert4) \<and> timeLabel alert4 = None"
proof -
  have a: "CHR '' '' \<in> set (created_at alert1)" by (simp add: alert1_def)
  have b: "count_list (created_at alert1) CHR '' '' = 1" by (simp add: alert1_def)
  have c: "CHR '' '' \<notin> set (created_at alert4)" by (simp add: alert4_def)
  have d: "tl (dropWhile (\<lambda>c. c \<noteq> CHR '' '') (created_at alert1)) = ''10:00:00''"
    by (simp add: alert1_def)
  show ?thesis
    using a b c d cpu_labels_second_field [of sample "[]" alert1]
      cpu_labels_second_field [of sample "[]" alert4]
    by simp
qed

text \<open>
  The claim as stated fails: a timestamp without a space gets no label at all, and a
  timestamp with two spaces gets only the text up to the second space.
\<close>

theorem no_space_label_counterexample:
  "CHR '' '' \<notin> set (created_at alert4)
   \<and> cpu_labels (cpuData (processChartData sample [alert4])) = [None]
   \<and> cpu_labels (cpuData (processChartData sample [alert4])) \<noteq> [Some (created_at alert4)]
   \<and> tl (dropWhile (\<lambda>c. c \<noteq> CHR '' '') (created_at alert6)) = ''10:00:00 UTC''
   \<and> cpu_labels (cpuData (processChartData sample [alert6])) = [Some ''10:00:00'']
   \<and> cpu_labels (cpuData (processChartData sample [alert6])) \<noteq> [Some ''10:00:00 UTC'']"
  by (simp add: processChartData_def Let_def cpuAlerts_def arraySort_sample v8Sort_def slice_last_def
      timeLabel_def elemAt_def alert4_def alert6_def)

subsection \<open>The alert-type distribution\<close>

lemma toString_inherited_not_member:
  "m \<in> set objectPrototype \<Longrightarrow> toString (Inherited m) \<notin> set objectPrototype"
  by (auto simp: objectPrototype_def toString_def)

lemma labels_not_member:
  "label_cpu_usage \<notin> set objectPrototype" "label_mem_usage \<notin> set objectPrototype"
  "label_disk_usage \<notin> set objectPrototype" "label_network_in \<notin> set objectPrototype"
  "label_network_out \<notin> set objectPrototype"
  by (simp_all add: objectPrototype_def label_cpu_usage_def label_mem_usage_def
      label_disk_usage_def label_network_in_def label_network_out_def)

lemma formatted_not_member: "formatted a \<notin> set objectPrototype"
  unfolding formatted_def formatMetricName_cases
  using toString_inherited_not_member [of "metric a"] labels_not_member
  by (simp add: toString_def)

lemma proto_member: "''__proto__'' \<in> set objectPrototype"
  by (simp add: objectPrototype_def)

lemma map_of_keyed:
  "map_of (map (\<lambda>n. (n, g n)) l) k = (if k \<in> set l then Some (g k) else None)"
  by (induction l) auto

lemma update_keyed_in:
  "k \<in> set l \<Longrightarrow> distinct l \<Longrightarrow>
   AList.update k v (map (\<lambda>n. (n, g n)) l) = map (\<lambda>n. (n, if n = k then v else g n)) l"
  by (induction l) auto

lemma update_keyed_notin:
  "k \<notin> set l \<Longrightarrow> AList.update k v (map (\<lambda>n. (n, g n)) l) = map (\<lambda>n. (n, g n)) l @ [(k, v)]"
  by (induction l) auto

lemma newSet_snoc:
  "newSet (xs @ [x]) = (if x \<in> set xs then newSet xs else newSet xs @ [x])"
  by (simp add: newSet_def set_fold_newSet)

lemma newSet_first_seen: "newSet xs = rev (remdups (rev xs))"
  by (induction xs rule: rev_induct) (simp_all add: newSet_snoc, simp add: newSet_def)

lemma countMetric_keyed:
  assumes "distinct l"
  shows "countMetric a (map (\<lambda>n. (n, Num (c n))) l) =
     (if formatted a \<in> set l
      then map (\<lambda>n. (n, if n = formatted a then Num (c (formatted a) + 1) else Num (c n))) l
      else map (\<lambda>n. (n, Num (c n))) l @ [(formatted a, Num 1)])"
proof -
  let ?obj = "map (\<lambda>n. (n, Num (c n))) l"
  have k: "formatted a \<noteq> ''__proto__''" "formatted a \<notin> set objectPrototype"
    using formatted_not_member [of a] proto_member by auto
  have g: "getProperty ?obj (formatted a)
      = (if formatted a \<in> set l then Own (Num (c (formatted a))) else Undefined)"
    using k by (simp add: getProperty_def map_of_keyed)
  have cm: "countMetric a ?obj
      = AList.update (formatted a) (plusOne (getProperty ?obj (formatted a))) ?obj"
    using k by (simp add: countMetric_def Let_def formatted_def setProperty_def)
  show ?thesis
  proof (cases "formatted a \<in> set l")
    case True
    have "countMetric a ?obj = AList.update (formatted a) (Num (c (formatted a) + 1)) ?obj"
      unfolding cm g using True by (simp add: plusOne_def)
    also have "\<dots> = map (\<lambda>n. (n, if n = formatted a then Num (c (formatted a) + 1) else Num (c n))) l"
      using True assms by (rule update_keyed_in)
    finally show ?thesis using True by simp
  next
    case False
    have "countMetric a ?obj = AList.update (formatted a) (Num 1) ?obj"
      unfolding cm g using False by (simp add: plusOne_def)
    also have "\<dots> = ?obj @ [(formatted a, Num 1)]"
      using False by (rule update_keyed_notin)
    finally show ?thesis using False by simp
  qed
qed

lemma metricCount_eq:
  "fold countMetric C [] =
     map (\<lambda>n. (n, Num (count_list (map formatted C) n))) (newSet (map formatted C))"
proof (induction C rule: rev_induct)
  case Nil
  then show ?case by (simp add: newSet_def)
next
  case (snoc a C)
  let ?ns = "map formatted C"
  let ?k = "formatted a"
  have d: "distinct (newSet ?ns)" by (rule distinct_newSet)
  have step: "fold countMetric (C @ [a]) [] =
      countMetric a (map (\<lambda>n. (n, Num (count_list ?ns n))) (newSet ?ns))"
    using snoc by simp
  have cnt: "\<And>n. count_list (map formatted (C @ [a])) n
      = count_list ?ns n + (if n = ?k then 1 else 0)"
    by auto
  show ?case
  proof (cases "?k \<in> set ?ns")
    case True
    then have mem: "?k \<in> set (newSet ?ns)" by (simp add: set_newSet)
    have ns: "newSet (map formatted (C @ [a])) = newSet ?ns"
      using True by (simp add: newSet_snoc)
    have "fold countMetric (C @ [a]) [] =
        map (\<lambda>n. (n, if n = ?k then Num (count_list ?ns ?k + 1) else Num (count_list ?ns n)))
          (newSet ?ns)"
      unfolding step countMetric_keyed [OF d] using mem by simp
    also have "\<dots> = map (\<lambda>n. (n, Num (count_list (map formatted (C @ [a])) n))) (newSet ?ns)"
      unfolding cnt by (rule map_cong) auto
    finally show ?thesis unfolding ns .
  next
    case False
    then have nmem: "?k \<notin> set (newSet ?ns)" by (simp add: set_newSet)
    have z: "count_list ?ns ?k = 0"
      using False count_list_0_iff [of ?ns ?k] by blast
    have ns: "newSet (map formatted (C @ [a])) = newSet ?ns @ [?k]"
      using False by (simp add: newSet_snoc)
    have "fold countMetric (C @ [a]) [] =
        map (\<lambda>n. (n, Num (count_list ?ns n))) (newSet ?ns) @ [(?k, Num 1)]"
      unfolding step countMetric_keyed [OF d] using nmem by simp
    also have "map (\<lambda>n. (n, Num (count_list ?ns n))) (newSet ?ns)
        = map (\<lambda>n. (n, Num (count_list (map formatted (C @ [a])) n))) (newSet ?ns)"
      unfolding cnt using nmem by (intro map_cong) auto
    also have "(?k, Num 1) = (?k, Num (count_list (map formatted (C @ [a])) ?k))"
      unfolding cnt z by simp
    finally show ?thesis unfolding ns by simp
  qed
qed

lemma insort_keyed:
  "insort_key (\<lambda>p. h (fst p)) (n, g n) (map (\<lambda>n. (n, g n)) l)
     = map (\<lambda>n. (n, g n)) (insort_key h n l)"
  by (induction l) simp_all

lemma sort_keyed:
  "sort_key (\<lambda>p. h (fst p)) (map (\<lambda>n. (n, g n)) l) = map (\<lambda>n. (n, g n)) (sort_key h l)"
  by (induction l) (simp_all add: insort_keyed)

lemma ownKeyOrder_keyed:
  "ownKeyOrder (map (\<lambda>n. (n, g n)) l)
     = map (\<lambda>n. (n, g n)) (sort_key indexOf (filter isIndex l) @ filter (\<lambda>n. \<not> isIndex n) l)"
  by (simp add: ownKeyOrder_def filter_map comp_def sort_keyed)

lemma set_keyOrder: "set (keyOrder l) = set l"
  by (auto simp: keyOrder_def)

lemma distinct_keyOrder: "distinct l \<Longrightarrow> distinct (keyOrder l)"
  by (auto simp: keyOrder_def)

lemma keyOrder_no_index: "\<forall>n \<in> set l. \<not> isIndex n \<Longrightarrow> keyOrder l = l"
  by (simp add: keyOrder_def filter_empty_conv)

lemma type_series_eq:
  "type_labels (alertTypeData (processChartData pd C)) = keyOrder (newSet (map formatted C))"
  "type_values (alertTypeData (processChartData pd C))
     = map (\<lambda>n. Num (count_list (map formatted C) n)) (keyOrder (newSet (map formatted C)))"
  by (simp_all add: processChartData_def Let_def Object_keys_def Object_values_def
      metricCount_eq ownKeyOrder_keyed keyOrder_def comp_def)

lemma sum_counts:
  assumes "distinct l" and "set l = set ns"
  shows "sum_list (map (count_list ns) l) = length ns"
proof -
  have "sum_list (map (count_list ns) l) = sum (count_list ns) (set l)"
    using assms(1) by (rule sum_list_distinct_conv_sum_set)
  also have "\<dots> = length ns"
    unfolding assms(2) by (rule sum_count_set) simp_all
  finally show ?thesis .
qed

text \<open>
  Claim C4, as amended. The labels of the alert-type distribution are the distinct formatted
  metric names of the collection; the names that are array indices (decimal numerals such as
  \<open>1\<close> or \<open>42\<close>) come first, in ascending numeric order, and the other names follow in the
  order of their first appearance. So the labels are in order of first appearance whenever
  no formatted name is an array index. The values are the numbers of occurrences of the
  labels, in the same order, and their sum is the size of the collection.
\<close>

theorem alert_type_distribution:
  fixes C :: "alert list" and pd :: platform
  defines "names \<equiv> map (\<lambda>a. toString (formatMetricName (metric a))) C"
  defines "first_seen \<equiv> rev (remdups (rev names))"
  defines "labels \<equiv> type_labels (alertTypeData (processChartData pd C))"
  defines "counts \<equiv> type_values (alertTypeData (processChartData pd C))"
  shows "set labels = set names \<and> distinct labels
    \<and> labels = sort_key indexOf (filter isIndex first_seen) @ filter (\<lambda>n. \<not> isIndex n) first_seen
    \<and> counts = map (\<lambda>l. Num (count_list names l)) labels
    \<and> sum_list (map (count_list names) labels) = length C
    \<and> ((\<forall>n \<in> set names. \<not> isIndex n) \<longrightarrow> labels = first_seen)"
proof -
  have n: "names = map formatted C"
    by (simp add: names_def formatted_def)
  have f: "first_seen = newSet names"
    by (simp add: first_seen_def newSet_first_seen)
  have l: "labels = keyOrder first_seen"
    by (simp add: labels_def type_series_eq n f)
  have c1: "set labels = set names"
    by (simp add: l f set_keyOrder set_newSet)
  have c2: "distinct labels"
    by (simp add: l f distinct_keyOrder distinct_newSet)
  have c3: "labels = sort_key indexOf (filter isIndex first_seen)
      @ filter (\<lambda>n. \<not> isIndex n) first_seen"
    by (simp add: l keyOrder_def)
  have c4: "counts = map (\<lambda>l. Num (count_list names l)) labels"
    by (simp add: counts_def type_series_eq n l f)
  have c5: "sum_list (map (count_list names) labels) = length C"
    using sum_counts [OF c2 c1] by (simp add: names_def)
  have c6: "(\<forall>n \<in> set names. \<not> isIndex n) \<longrightarrow> labels = first_seen"
    unfolding l using keyOrder_no_index [of first_seen] by (simp add: f set_newSet)
  show ?thesis
    using c1 c2 c3 c4 c5 c6 by blast
qed

lemma formatted_samples:
  "formatted alert1 = label_cpu_usage" "formatted alert2 = label_mem_usage"
  "formatted alert5 = ''1''"
  by (simp_all add: formatted_def formatMetricName_cases toString_def alert1_def alert2_def
      alert5_def objectPrototype_def)

lemma isIndex_samples:
  "\<not> isIndex label_cpu_usage" "\<not> isIndex label_mem_usage" "isIndex ''1''"
  by (simp_all add: isIndex_def arrayIndex_def isDigit_def decimal_def label_cpu_usage_def
      label_mem_usage_def)

theorem alert_type_distribution_witness:
  "\<not> isIndex (toString (formatMetricName (metric alert1)))
   \<and> \<not> isIndex (toString (formatMetricName (metric alert2)))
   \<and> type_labels (alertTypeData (processChartData sample [alert1, alert2, alert1]))
       = [label_cpu_usage, label_mem_usage]
   \<and> type_values (alertTypeData (processChartData sample [alert1, alert2, alert1]))
       = [Num 2, Num 1]"
proof -
  have i: "\<not> isIndex (toString (formatMetricName (metric alert1)))"
    "\<not> isIndex (toString (formatMetricName (metric alert2)))"
    using formatted_samples isIndex_samples by (simp_all add: formatted_def)
  have ne: "label_cpu_usage \<noteq> label_mem_usage"
    by (simp add: label_cpu_usage_def label_mem_usage_def)
  show ?thesis
    using i ne alert_type_distribution [where C = "[alert1, alert2, alert1]" and pd = sample]
    by (simp add: formatted_samples [unfolded formatted_def])
qed

text \<open>
  The claim as stated fails: a metric named \<open>1\<close> that appears after \<open>cpu_usage\<close> is listed
  before it.
\<close>

theorem index_key_first_counterexample:
  "map (\<lambda>a. toString (formatMetricName (metric a))) [alert1, alert5] = [label_cpu_usage, ''1'']
   \<and> type_labels (alertTypeData (processChartData sample [alert1, alert5]))
       = [''1'', label_cpu_usage]
   \<and> type_labels (alertTypeData (processChartData sample [alert1, alert5]))
       \<noteq> [label_cpu_usage, ''1'']"
proof -
  have ne: "label_cpu_usage \<noteq> ''1''"
    by (simp add: label_cpu_usage_def)
  have ns: "newSet [label_cpu_usage, ''1''] = [label_cpu_usage, ''1'']"
    using ne by (simp add: newSet_def)
  show ?thesis
    using ne
    by (simp add: type_series_eq formatted_samples [unfolded formatted_def]
        formatted_samples ns keyOrder_def isIndex_samples)
qed

subsection \<open>Chart instances\<close>

lemma consistent_iff:
  "consistent st \<longleftrightarrow>
     distinct (map chart_id (live_charts st))
     \<and> (\<forall>c \<in> set (live_charts st). chart_id c < next_chart_id st)
     \<and> (\<forall>c \<in> set (live_charts st). slotOf (chart_canvas c) st = Some (chart_id c))
     \<and> (\<forall>i. cpuTrendChart st = Some i \<longrightarrow> i < next_chart_id st \<and> alertTypeChart st \<noteq> Some i)
     \<and> (\<forall>i. alertTypeChart st = Some i \<longrightarrow> i < next_chart_id st)"
  unfolding consistent_def list_all_iff
  by (cases "cpuTrendChart st"; cases "alertTypeChart st") auto

lemma consistent_initial: "consistent initial"
  by (simp add: consistent_iff initial_def)

lemma at_most_one:
  "distinct (map f xs) \<Longrightarrow> \<forall>x \<in> set xs. P x \<longrightarrow> f x = i \<Longrightarrow> length (filter P xs) \<le> 1"
proof (induction xs)
  case Nil
  then show ?case by simp
next
  case (Cons x xs)
  show ?case
  proof (cases "P x")
    case True
    then have "f x = i" using Cons.prems by simp
    have "\<not> P y" if "y \<in> set xs" for y
    proof
      assume "P y"
      then have "f y = f x" using that Cons.prems \<open>f x = i\<close> by simp
      moreover have "f x \<notin> f ` set xs" using Cons.prems by simp
      ultimately show False using that by (metis imageI)
    qed
    then have "\<forall>y \<in> set xs. \<not> P y" by blast
    then have "filter P xs = []" by (simp add: filter_empty_conv)
    then show ?thesis by simp
  next
    case False
    then show ?thesis using Cons by simp
  qed
qed

lemma consistent_at_most_one:
  assumes "consistent st"
  shows "length (chartsOn cv st) \<le> 1"
proof (cases "slotOf cv st")
  case None
  then have "\<forall>c \<in> set (live_charts st). chart_canvas c \<noteq> cv"
    using assms by (auto simp: consistent_iff)
  then show ?thesis by (simp add: chartsOn_def filter_empty_conv)
next
  case (Some i)
  then have "\<forall>c \<in> set (live_charts st). chart_canvas c = cv \<longrightarrow> chart_id c = i"
    using assms by (auto simp: consistent_iff)
  moreover have "distinct (map chart_id (live_charts st))"
    using assms by (simp add: consistent_iff)
  ultimately show ?thesis
    unfolding chartsOn_def by (rule at_most_one [rotated])
qed

lemma destroyed_cpu:
  assumes "consistent st"
  shows "chartsOn CpuTrendCanvas (case cpuTrendChart st of Some i \<Rightarrow> destroy i st | None \<Rightarrow> st) = []"
  using assms
  by (auto simp: consistent_iff chartsOn_def destroy_def slotOf_def filter_empty_conv
      split: option.splits)

lemma destroyed_type:
  assumes "consistent st"
  shows "chartsOn AlertTypeCanvas (case alertTypeChart st of Some i \<Rightarrow> destroy i st | None \<Rightarrow> st) = []"
  using assms
  by (auto simp: consistent_iff chartsOn_def destroy_def slotOf_def filter_empty_conv
      split: option.splits)

lemma consistent_renderCpuTrendChart:
  assumes "consistent st"
  shows "consistent (renderCpuTrendChart d st)"
  using assms
  by (auto simp: consistent_iff renderCpuTrendChart_def newChart_def destroy_def slotOf_def
      Let_def distinct_map_filter split: option.splits canvas.splits)

lemma consistent_renderAlertTypeChart:
  assumes "consistent st"
  shows "consistent (renderAlertTypeChart d st)"
  using assms
  by (auto simp: consistent_iff renderAlertTypeChart_def newChart_def destroy_def slotOf_def
      Let_def distinct_map_filter split: option.splits canvas.splits)


lemma consistent_cong:
  assumes "live_charts st' = live_charts st" and "next_chart_id st' = next_chart_id st"
    and "cpuTrendChart st' = cpuTrendChart st" and "alertTypeChart st' = alertTypeChart st"
  shows "consistent st' = consistent st"
  using assms by (simp add: consistent_iff slotOf_def)

lemma liveAfter_snoc: "liveAfter (events @ [e]) = replay e (liveAfter events)"
  by (simp add: liveAfter_def)

lemma take_snoc:
  "take n (events @ [e]) = (if n \<le> length events then take n events else events @ [e])"
  by (cases "n \<le> length events") simp_all

lemma logged_cong:
  assumes "live_charts st' = live_charts st" and "chart_log st' = chart_log st"
  shows "logged st' = logged st"
  using assms by (simp add: logged_def)

lemma onCanvas_charts:
  "onCanvas cv (map (\<lambda>c. (chart_id c, chart_canvas c)) cs)
     = map (\<lambda>c. (chart_id c, chart_canvas c)) (filter (\<lambda>c. chart_canvas c = cv) cs)"
  by (induction cs) (simp_all add: onCanvas_def)

lemma logged_now:
  assumes "logged st"
  shows "length (onCanvas cv (liveAfter (chart_log st))) \<le> 1"
proof -
  have "length (onCanvas cv (liveAfter (take (length (chart_log st)) (chart_log st)))) \<le> 1"
    using assms unfolding logged_def by blast
  then show ?thesis by simp
qed

lemma logged_destroy:
  assumes "logged st"
  shows "logged (destroy i st)"
proof -
  let ?g = "\<lambda>c. (chart_id c, chart_canvas c)"
  have live: "liveAfter (chart_log st) = map ?g (live_charts st)"
    using assms by (simp add: logged_def)
  have l: "liveAfter (chart_log st @ [Destroyed i])
      = map ?g (filter (\<lambda>c. chart_id c \<noteq> i) (live_charts st))"
    by (simp add: liveAfter_snoc live filter_map comp_def)
  have "length (onCanvas cv (filter (\<lambda>p. fst p \<noteq> i) (liveAfter (chart_log st))))
      \<le> length (onCanvas cv (liveAfter (chart_log st)))" for cv
  proof -
    have "onCanvas cv (filter (\<lambda>p. fst p \<noteq> i) (liveAfter (chart_log st)))
        = filter (\<lambda>p. fst p \<noteq> i) (onCanvas cv (liveAfter (chart_log st)))"
      by (auto simp: onCanvas_def intro: filter_cong)
    then show ?thesis by simp
  qed
  then have whole: "length (onCanvas cv (liveAfter (chart_log st @ [Destroyed i]))) \<le> 1" for cv
    using logged_now [OF assms, of cv] by (simp add: liveAfter_snoc) (meson order_trans)
  have "length (onCanvas cv (liveAfter (take n (chart_log st @ [Destroyed i])))) \<le> 1" for n cv
    using assms whole [of cv] unfolding take_snoc logged_def by simp
  then show ?thesis
    using l by (simp add: logged_def destroy_def)
qed

lemma logged_newChart:
  assumes "logged st" and "chartsOn cv st = []"
  shows "logged (snd (newChart cv cfg st))"
proof -
  let ?g = "\<lambda>c. (chart_id c, chart_canvas c)"
  have live: "liveAfter (chart_log st) = map ?g (live_charts st)"
    using assms(1) by (simp add: logged_def)
  have l: "liveAfter (chart_log st @ [Created (next_chart_id st) cv])
      = map ?g (live_charts st
          @ [\<lparr>chart_id = next_chart_id st, chart_canvas = cv, chart_config = cfg\<rparr>])"
    by (simp add: liveAfter_snoc live)
  have free: "onCanvas cv (liveAfter (chart_log st)) = []"
    using assms(2) by (simp add: live onCanvas_charts chartsOn_def)
  have whole: "length (onCanvas cv' (liveAfter (chart_log st @ [Created (next_chart_id st) cv])))
      \<le> 1" for cv'
  proof (cases "cv' = cv")
    case True
    then show ?thesis
      using free by (simp add: liveAfter_snoc onCanvas_def)
  next
    case False
    then show ?thesis
      using logged_now [OF assms(1), of cv'] by (simp add: liveAfter_snoc onCanvas_def)
  qed
  have "length (onCanvas cv' (liveAfter (take n (chart_log st @ [Created (next_chart_id st) cv]))))
      \<le> 1" for n cv'
    using assms(1) whole [of cv'] unfolding take_snoc logged_def by simp
  then show ?thesis
    using l by (simp add: logged_def newChart_def)
qed

lemma logged_renderCpuTrendChart:
  assumes "consistent st" and "logged st"
  shows "logged (renderCpuTrendChart d st)"
proof -
  let ?st1 = "case cpuTrendChart st of Some i \<Rightarrow> destroy i st | None \<Rightarrow> st"
  have l1: "logged ?st1"
    using assms(2) by (simp add: logged_destroy split: option.splits)
  have "logged (snd (newChart CpuTrendCanvas (Line d) ?st1))"
    using l1 destroyed_cpu [OF assms(1)] by (rule logged_newChart)
  moreover have "logged (renderCpuTrendChart d st)
      = logged (snd (newChart CpuTrendCanvas (Line d) ?st1))"
    by (rule logged_cong) (simp_all add: renderCpuTrendChart_def Let_def split_beta)
  ultimately show ?thesis by simp
qed

lemma logged_renderAlertTypeChart:
  assumes "consistent st" and "logged st"
  shows "logged (renderAlertTypeChart d st)"
proof -
  let ?st1 = "case alertTypeChart st of Some i \<Rightarrow> destroy i st | None \<Rightarrow> st"
  let ?cfg = "Doughnut d (take (length (type_labels d)) colors)"
  have l1: "logged ?st1"
    using assms(2) by (simp add: logged_destroy split: option.splits)
  have "logged (snd (newChart AlertTypeCanvas ?cfg ?st1))"
    using l1 destroyed_type [OF assms(1)] by (rule logged_newChart)
  moreover have "logged (renderAlertTypeChart d st)
      = logged (snd (newChart AlertTypeCanvas ?cfg ?st1))"
    by (rule logged_cong) (simp_all add: renderAlertTypeChart_def Let_def split_beta)
  ultimately show ?thesis by simp
qed

text \<open>What one repaint does, chart by chart.\<close>

lemma renderCpuTrendChart_result:
  assumes "consistent st"
  shows "chartsOn CpuTrendCanvas (renderCpuTrendChart d st)
      = [\<lparr>chart_id = next_chart_id st, chart_canvas = CpuTrendCanvas, chart_config = Line d\<rparr>]"
    and "chartsOn AlertTypeCanvas (renderCpuTrendChart d st) = chartsOn AlertTypeCanvas st"
    and "cpuTrendChart (renderCpuTrendChart d st) = Some (next_chart_id st)"
    and "alertTypeChart (renderCpuTrendChart d st) = alertTypeChart st"
    and "next_chart_id (renderCpuTrendChart d st) = next_chart_id st + 1"
    and "chart_log (renderCpuTrendChart d st) = chart_log st
      @ (case cpuTrendChart st of Some i \<Rightarrow> [Destroyed i] | None \<Rightarrow> [])
      @ [Created (next_chart_id st) CpuTrendCanvas]"
    and "alertsData (renderCpuTrendChart d st) = alertsData st"
    and "thrown (renderCpuTrendChart d st) = thrown st"
  using assms
  by (auto simp: consistent_iff chartsOn_def renderCpuTrendChart_def newChart_def destroy_def
      slotOf_def Let_def filter_empty_conv intro!: filter_cong split: option.splits if_splits)

lemma renderAlertTypeChart_result:
  assumes "consistent st"
  shows "chartsOn AlertTypeCanvas (renderAlertTypeChart d st)
      = [\<lparr>chart_id = next_chart_id st, chart_canvas = AlertTypeCanvas,
          chart_config = Doughnut d (take (length (type_labels d)) colors)\<rparr>]"
    and "chartsOn CpuTrendCanvas (renderAlertTypeChart d st) = chartsOn CpuTrendCanvas st"
    and "alertTypeChart (renderAlertTypeChart d st) = Some (next_chart_id st)"
    and "cpuTrendChart (renderAlertTypeChart d st) = cpuTrendChart st"
    and "next_chart_id (renderAlertTypeChart d st) = next_chart_id st + 1"
    and "chart_log (renderAlertTypeChart d st) = chart_log st
      @ (case alertTypeChart st of Some i \<Rightarrow> [Destroyed i] | None \<Rightarrow> [])
      @ [Created (next_chart_id st) AlertTypeCanvas]"
    and "alertsData (renderAlertTypeChart d st) = alertsData st"
    and "thrown (renderAlertTypeChart d st) = thrown st"
  using assms
  by (auto simp: consistent_iff chartsOn_def renderAlertTypeChart_def newChart_def destroy_def
      slotOf_def Let_def filter_empty_conv intro!: filter_cong split: option.splits if_splits)

lemma renderCharts_records:
  "alertsData st = map Record C \<Longrightarrow>
   renderCharts pf st = renderAlertTypeChart (alertTypeData (processChartData pf C))
     (renderCpuTrendChart (cpuData (processChartData pf C)) st)"
  by (simp add: renderCharts_def elements_records Let_def)

lemma renderCharts_result:
  assumes "consistent st" and "alertsData st = map Record C"
  shows "chartsOn CpuTrendCanvas (renderCharts pf st)
      = [\<lparr>chart_id = next_chart_id st, chart_canvas = CpuTrendCanvas,
          chart_config = Line (cpuData (processChartData pf C))\<rparr>]"
    and "chartsOn AlertTypeCanvas (renderCharts pf st)
      = [\<lparr>chart_id = next_chart_id st + 1, chart_canvas = AlertTypeCanvas,
          chart_config = Doughnut (alertTypeData (processChartData pf C))
            (take (length (type_labels (alertTypeData (processChartData pf C)))) colors)\<rparr>]"
    and "cpuTrendChart (renderCharts pf st) = Some (next_chart_id st)"
    and "alertTypeChart (renderCharts pf st) = Some (next_chart_id st + 1)"
    and "next_chart_id (renderCharts pf st) = next_chart_id st + 2"
    and "chart_log (renderCharts pf st) = chart_log st
      @ (case cpuTrendChart st of Some i \<Rightarrow> [Destroyed i] | None \<Rightarrow> [])
      @ [Created (next_chart_id st) CpuTrendCanvas]
      @ (case alertTypeChart st of Some i \<Rightarrow> [Destroyed i] | None \<Rightarrow> [])
      @ [Created (next_chart_id st + 1) AlertTypeCanvas]"
proof -
  let ?d = "processChartData pf C"
  let ?st1 = "renderCpuTrendChart (cpuData ?d) st"
  have c1: "consistent ?st1"
    using assms(1) by (rule consistent_renderCpuTrendChart)
  note r1 = renderCpuTrendChart_result [OF assms(1), of "cpuData ?d"]
  note r2 = renderAlertTypeChart_result [OF c1, of "alertTypeData ?d"]
  have eq: "renderCharts pf st = renderAlertTypeChart (alertTypeData ?d) ?st1"
    using assms(2) by (rule renderCharts_records)
  show "chartsOn CpuTrendCanvas (renderCharts pf st)
      = [\<lparr>chart_id = next_chart_id st, chart_canvas = CpuTrendCanvas,
          chart_config = Line (cpuData ?d)\<rparr>]"
    unfolding eq r2(2) r1(1) ..
  show "chartsOn AlertTypeCanvas (renderCharts pf st)
      = [\<lparr>chart_id = next_chart_id st + 1, chart_canvas = AlertTypeCanvas,
          chart_config = Doughnut (alertTypeData ?d)
            (take (length (type_labels (alertTypeData ?d))) colors)\<rparr>]"
    unfolding eq r2(1) r1(5) ..
  show "cpuTrendChart (renderCharts pf st) = Some (next_chart_id st)"
    unfolding eq r2(4) r1(3) ..
  show "alertTypeChart (renderCharts pf st) = Some (next_chart_id st + 1)"
    unfolding eq r2(3) r1(5) ..
  show "next_chart_id (renderCharts pf st) = next_chart_id st + 2"
    unfolding eq r2(5) r1(5) by simp
  show "chart_log (renderCharts pf st) = chart_log st
      @ (case cpuTrendChart st of Some i \<Rightarrow> [Destroyed i] | None \<Rightarrow> [])
      @ [Created (next_chart_id st) CpuTrendCanvas]
      @ (case alertTypeChart st of Some i \<Rightarrow> [Destroyed i] | None \<Rightarrow> [])
      @ [Created (next_chart_id st + 1) AlertTypeCanvas]"
    unfolding eq r2(6) r1(6) r1(4) r1(5) by simp
qed

text \<open>The invariant of a run.\<close>

lemma attached_renderCpuTrendChart:
  assumes "consistent st" and "attached st"
  shows "attached (renderCpuTrendChart d st)"
  using assms(2) renderCpuTrendChart_result [OF assms(1), of d]
  by (simp add: attached_def)

lemma attached_renderAlertTypeChart:
  assumes "consistent st" and "attached st"
  shows "attached (renderAlertTypeChart d st)"
  using assms(2) renderAlertTypeChart_result [OF assms(1), of d]
  by (simp add: attached_def)

lemma sound_cong:
  assumes "live_charts st' = live_charts st" and "next_chart_id st' = next_chart_id st"
    and "cpuTrendChart st' = cpuTrendChart st" and "alertTypeChart st' = alertTypeChart st"
    and "chart_log st' = chart_log st"
  shows "sound st' = sound st"
  using consistent_cong [OF assms(1-4)] logged_cong [OF assms(1) assms(5)] assms(1,3,4)
  by (simp add: sound_def attached_def chartsOn_def)

lemma sound_renderCharts:
  assumes "sound st"
  shows "sound (renderCharts pf st)"
proof (cases "elements ''metric'' (alertsData st)")
  case (Inl m)
  then have eq: "renderCharts pf st = st\<lparr>thrown := Some m\<rparr>"
    by (simp add: renderCharts_def)
  have "sound (st\<lparr>thrown := Some m\<rparr>) = sound st"
    by (rule sound_cong) simp_all
  then show ?thesis using assms eq by simp
next
  case (Inr alerts)
  let ?d = "processChartData pf alerts"
  let ?st1 = "renderCpuTrendChart (cpuData ?d) st"
  have eq: "renderCharts pf st = renderAlertTypeChart (alertTypeData ?d) ?st1"
    using Inr by (simp add: renderCharts_def Let_def)
  have c1: "consistent ?st1"
    using assms by (simp add: sound_def consistent_renderCpuTrendChart)
  have l1: "logged ?st1"
    using assms by (simp add: sound_def logged_renderCpuTrendChart)
  have a1: "attached ?st1"
    using assms by (simp add: sound_def attached_renderCpuTrendChart)
  show ?thesis
    unfolding eq sound_def using c1 l1 a1
    by (simp add: consistent_renderAlertTypeChart logged_renderAlertTypeChart
        attached_renderAlertTypeChart)
qed

lemma sound_render:
  assumes "sound st"
  shows "sound (render pf st)"
proof -
  have a: "sound (renderAlertsTable st)"
    using assms sound_cong [of "renderAlertsTable st" st] by simp
  have b: "sound (andThen updateCoreMetrics (renderAlertsTable st))"
    using a sound_cong [of "updateCoreMetrics (renderAlertsTable st)" "renderAlertsTable st"]
    by (simp add: andThen_def)
  show ?thesis
    using b sound_renderCharts [OF b, of pf] by (simp add: render_def andThen_def)
qed

lemma sound_caught: "sound (caught pre m st) = sound st"
  by (rule sound_cong) (simp_all add: caught_def console_error_def window_alert_def)

lemma sound_window_alert: "sound (window_alert m st) = sound st"
  by (rule sound_cong) (simp_all add: window_alert_def)

lemma sound_uncaught: "sound (st\<lparr>thrown := None\<rparr>) = sound st"
  by (rule sound_cong) simp_all

lemma sound_fetch: "sound (fetch r st) = sound st"
  by (rule sound_cong) (simp_all add: fetch_def)

lemma sound_installed:
  assumes "sound st"
  shows "sound (render pf (fetch r st\<lparr>alertsData := es\<rparr>))"
proof -
  have "sound (fetch r st\<lparr>alertsData := es\<rparr>) = sound st"
    by (rule sound_cong) (simp_all add: fetch_def)
  then show ?thesis
    using assms sound_render by blast
qed

lemma sound_refreshAlerts:
  assumes "sound st"
  shows "sound (refreshAlerts pf resp st)"
proof (cases "receive msg_refresh_failed ''alerts'' resp")
  case (Inl m)
  then show ?thesis
    using assms by (simp add: refreshAlerts_def Let_def sound_caught sound_fetch)
next
  case (Inr f)
  show ?thesis
    using Inr sound_installed [OF assms, where pf = pf and es = "orEmpty f"]
    by (simp add: refreshAlerts_def Let_def sound_caught sound_uncaught split: option.splits)
qed

lemma sound_searchAlerts:
  assumes "sound st"
  shows "sound (searchAlerts pf h s e resp st)"
proof (cases "receive msg_search_failed ''alerts'' resp")
  case (Inl m)
  then show ?thesis
    using assms by (simp add: searchAlerts_def Let_def sound_caught sound_fetch)
next
  case (Inr f)
  show ?thesis
    using Inr sound_installed [OF assms, where pf = pf and es = "orEmpty f"]
    by (simp add: searchAlerts_def Let_def sound_caught sound_uncaught sound_window_alert
        split: option.splits)
qed

lemma sound_submitAlert:
  assumes "sound st"
  shows "sound (submitAlert pf form resp refreshResp st)"
proof (cases "receive msg_submit_failed ''message'' resp")
  case (Inl m)
  then show ?thesis
    using assms by (simp add: submitAlert_def Let_def sound_caught sound_fetch)
next
  case (Inr f)
  have "sound (window_alert (showField f) (fetch r st))" for r
    using assms by (simp add: sound_window_alert sound_fetch)
  then show ?thesis
    using Inr by (simp add: submitAlert_def Let_def sound_refreshAlerts)
qed

lemma sound_handle: "sound st \<Longrightarrow> sound (handle pf ev st)"
  by (cases ev)
    (simp_all add: sound_refreshAlerts sound_searchAlerts sound_submitAlert resetSearch_def)

lemma sound_fold: "sound st \<Longrightarrow> sound (fold (handle pf) evs st)"
  by (induction evs arbitrary: st) (simp_all add: sound_handle)

lemma sound_initial: "sound initial"
  using consistent_initial
  by (simp add: sound_def logged_def attached_def chartsOn_def initial_def liveAfter_def
      onCanvas_def)

lemma sound_run: "sound (run pf evs)"
  unfolding run_def by (rule sound_fold) (rule sound_initial)

lemma repainted_cpu:
  assumes "sound st"
  shows "sound (renderCpuTrendChart d st)"
  using assms
  by (simp add: sound_def consistent_renderCpuTrendChart logged_renderCpuTrendChart
      attached_renderCpuTrendChart)

lemma repainted_type:
  assumes "sound st"
  shows "sound (renderAlertTypeChart d st)"
  using assms
  by (simp add: sound_def consistent_renderAlertTypeChart logged_renderAlertTypeChart
      attached_renderAlertTypeChart)

lemma live_by_canvas:
  "length (live_charts st) = length (chartsOn CpuTrendCanvas st)
     + length (chartsOn AlertTypeCanvas st)"
proof -
  have "filter (\<lambda>c. chart_canvas c = AlertTypeCanvas) (live_charts st)
      = filter (\<lambda>c. \<not> chart_canvas c = CpuTrendCanvas) (live_charts st)"
    by (rule filter_cong) (auto intro: canvas.exhaust)
  then show ?thesis
    using sum_length_filter_compl [of "\<lambda>c. chart_canvas c = CpuTrendCanvas" "live_charts st"]
    by (simp add: chartsOn_def)
qed

text \<open>
  Claim C9. In every state \<open>st\<close> the page reaches from its initial state, by loads, searches,
  resets and submits with any answers of the network:

  \<^item> each canvas holds at most one live chart instance, and so it did at every moment of
    the history of constructions and destructions that led to \<open>st\<close>; that history accounts
    for exactly the instances alive in \<open>st\<close>;
  \<^item> the variable of a canvas refers to the instance alive on it, if there is one, and is
    unset otherwise;
  \<^item> rendering a chart first destroys the instance its variable refers to, and only then
    creates the replacement, with a fresh identity and the series it was given: the history
    grows by the destruction followed by the construction, the canvas then holds the
    replacement and nothing else, and the other canvas is untouched;
  \<^item> rendering the same chart again with the same series destroys that replacement and
    creates one more, so the canvas again holds exactly one instance, never two;
  \<^item> when the store holds records only, one repaint of both charts and two repaints in
    succession leave exactly one live instance per canvas, the newest.
\<close>

theorem one_chart_per_canvas:
  fixes pf :: platform and evs :: "event list"
    and d :: cpu_series and t :: type_series
  defines "st \<equiv> run pf evs"
  defines "k \<equiv> next_chart_id st"
  defines "cpu \<equiv> renderCpuTrendChart d"
  defines "typ \<equiv> renderAlertTypeChart t"
  defines "doughnut \<equiv> Doughnut t (take (length (type_labels t)) colors)"
  shows "length (chartsOn cv st) \<le> 1
    \<and> length (onCanvas cv (liveAfter (take n (chart_log st)))) \<le> 1
    \<and> liveAfter (chart_log st) = map (\<lambda>c. (chart_id c, chart_canvas c)) (live_charts st)
    \<and> map chart_id (chartsOn CpuTrendCanvas st)
        = (case cpuTrendChart st of Some i \<Rightarrow> [i] | None \<Rightarrow> [])
    \<and> map chart_id (chartsOn AlertTypeCanvas st)
        = (case alertTypeChart st of Some i \<Rightarrow> [i] | None \<Rightarrow> [])
    \<and> chartsOn CpuTrendCanvas
         (case cpuTrendChart st of Some i \<Rightarrow> destroy i st | None \<Rightarrow> st) = []
    \<and> chartsOn AlertTypeCanvas
         (case alertTypeChart st of Some i \<Rightarrow> destroy i st | None \<Rightarrow> st) = []
    \<and> chart_log (cpu st) = chart_log st
         @ (case cpuTrendChart st of Some i \<Rightarrow> [Destroyed i] | None \<Rightarrow> [])
         @ [Created k CpuTrendCanvas]
    \<and> chartsOn CpuTrendCanvas (cpu st)
        = [\<lparr>chart_id = k, chart_canvas = CpuTrendCanvas, chart_config = Line d\<rparr>]
    \<and> chartsOn AlertTypeCanvas (cpu st) = chartsOn AlertTypeCanvas st
    \<and> cpuTrendChart (cpu st) = Some k
    \<and> chart_log (cpu (cpu st))
        = chart_log (cpu st) @ [Destroyed k, Created (k + 1) CpuTrendCanvas]
    \<and> chartsOn CpuTrendCanvas (cpu (cpu st))
        = [\<lparr>chart_id = k + 1, chart_canvas = CpuTrendCanvas, chart_config = Line d\<rparr>]
    \<and> chart_log (typ st) = chart_log st
         @ (case alertTypeChart st of Some i \<Rightarrow> [Destroyed i] | None \<Rightarrow> [])
         @ [Created k AlertTypeCanvas]
    \<and> chartsOn AlertTypeCanvas (typ st)
        = [\<lparr>chart_id = k, chart_canvas = AlertTypeCanvas, chart_config = doughnut\<rparr>]
    \<and> chartsOn CpuTrendCanvas (typ st) = chartsOn CpuTrendCanvas st
    \<and> alertTypeChart (typ st) = Some k
    \<and> chart_log (typ (typ st))
        = chart_log (typ st) @ [Destroyed k, Created (k + 1) AlertTypeCanvas]
    \<and> chartsOn AlertTypeCanvas (typ (typ st))
        = [\<lparr>chart_id = k + 1, chart_canvas = AlertTypeCanvas, chart_config = doughnut\<rparr>]
    \<and> (alertsData st = map Record C \<longrightarrow>
         chart_log (renderCharts pf st) = chart_log st
           @ (case cpuTrendChart st of Some i \<Rightarrow> [Destroyed i] | None \<Rightarrow> [])
           @ [Created k CpuTrendCanvas]
           @ (case alertTypeChart st of Some i \<Rightarrow> [Destroyed i] | None \<Rightarrow> [])
           @ [Created (k + 1) AlertTypeCanvas]
         \<and> chartsOn CpuTrendCanvas (renderCharts pf st)
            = [\<lparr>chart_id = k, chart_canvas = CpuTrendCanvas,
                chart_config = Line (cpuData (processChartData pf C))\<rparr>]
         \<and> chartsOn AlertTypeCanvas (renderCharts pf st)
            = [\<lparr>chart_id = k + 1, chart_canvas = AlertTypeCanvas,
                chart_config = Doughnut (alertTypeData (processChartData pf C))
                  (take (length (type_labels (alertTypeData (processChartData pf C))))
                    colors)\<rparr>]
         \<and> chart_log (renderCharts pf (renderCharts pf st)) = chart_log (renderCharts pf st)
           @ [Destroyed k, Created (k + 2) CpuTrendCanvas,
              Destroyed (k + 1), Created (k + 3) AlertTypeCanvas]
         \<and> map chart_id (chartsOn CpuTrendCanvas (renderCharts pf (renderCharts pf st)))
            = [k + 2]
         \<and> map chart_id (chartsOn AlertTypeCanvas (renderCharts pf (renderCharts pf st)))
            = [k + 3]
         \<and> length (live_charts (renderCharts pf (renderCharts pf st))) = 2)"
proof -
  have s: "sound st"
    unfolding st_def by (rule sound_run)
  have c: "consistent st" and l: "logged st" and a: "attached st"
    using s by (simp_all add: sound_def)
  have p1: "length (chartsOn cv st) \<le> 1"
    using c by (rule consistent_at_most_one)
  have p2: "length (onCanvas cv (liveAfter (take n (chart_log st)))) \<le> 1"
    using l unfolding logged_def by blast
  have p3: "liveAfter (chart_log st) = map (\<lambda>c. (chart_id c, chart_canvas c)) (live_charts st)"
    using l unfolding logged_def by blast
  have p4: "map chart_id (chartsOn CpuTrendCanvas st)
        = (case cpuTrendChart st of Some i \<Rightarrow> [i] | None \<Rightarrow> [])"
    and p5: "map chart_id (chartsOn AlertTypeCanvas st)
        = (case alertTypeChart st of Some i \<Rightarrow> [i] | None \<Rightarrow> [])"
    using a by (simp_all add: attached_def)
  note p6 = destroyed_cpu [OF c]
  note p7 = destroyed_type [OF c]
  note r1 = renderCpuTrendChart_result [OF c, of d, folded cpu_def k_def]
  have c1: "consistent (cpu st)"
    unfolding cpu_def using c by (rule consistent_renderCpuTrendChart)
  note r2 = renderCpuTrendChart_result [OF c1, of d, folded cpu_def, unfolded r1(3) r1(5)]
  have p12: "chart_log (cpu (cpu st))
        = chart_log (cpu st) @ [Destroyed k, Created (k + 1) CpuTrendCanvas]"
    using r2(6) by simp
  note t1 = renderAlertTypeChart_result [OF c, of t, folded typ_def k_def doughnut_def]
  have c2: "consistent (typ st)"
    unfolding typ_def using c by (rule consistent_renderAlertTypeChart)
  note t2 = renderAlertTypeChart_result [OF c2, of t, folded typ_def doughnut_def, unfolded t1(3) t1(5)]
  have p18: "chart_log (typ (typ st))
        = chart_log (typ st) @ [Destroyed k, Created (k + 1) AlertTypeCanvas]"
    using t2(6) by simp
  have both: "chart_log (renderCharts pf st) = chart_log st
           @ (case cpuTrendChart st of Some i \<Rightarrow> [Destroyed i] | None \<Rightarrow> [])
           @ [Created k CpuTrendCanvas]
           @ (case alertTypeChart st of Some i \<Rightarrow> [Destroyed i] | None \<Rightarrow> [])
           @ [Created (k + 1) AlertTypeCanvas]
         \<and> chartsOn CpuTrendCanvas (renderCharts pf st)
            = [\<lparr>chart_id = k, chart_canvas = CpuTrendCanvas,
                chart_config = Line (cpuData (processChartData pf C))\<rparr>]
         \<and> chartsOn AlertTypeCanvas (renderCharts pf st)
            = [\<lparr>chart_id = k + 1, chart_canvas = AlertTypeCanvas,
                chart_config = Doughnut (alertTypeData (processChartData pf C))
                  (take (length (type_labels (alertTypeData (processChartData pf C))))
                    colors)\<rparr>]
         \<and> chart_log (renderCharts pf (renderCharts pf st)) = chart_log (renderCharts pf st)
           @ [Destroyed k, Created (k + 2) CpuTrendCanvas,
              Destroyed (k + 1), Created (k + 3) AlertTypeCanvas]
         \<and> map chart_id (chartsOn CpuTrendCanvas (renderCharts pf (renderCharts pf st)))
            = [k + 2]
         \<and> map chart_id (chartsOn AlertTypeCanvas (renderCharts pf (renderCharts pf st)))
            = [k + 3]
         \<and> length (live_charts (renderCharts pf (renderCharts pf st))) = 2"
    if rec: "alertsData st = map Record C"
  proof -
    let ?st1 = "renderCharts pf st"
    let ?st2 = "renderCharts pf ?st1"
    note b1 = renderCharts_result [OF c rec, of pf, folded k_def]
    have s1: "sound ?st1" using s by (rule sound_renderCharts)
    have c1: "consistent ?st1" using s1 by (simp add: sound_def)
    have rec1: "alertsData ?st1 = map Record C" using rec by simp
    note b2 = renderCharts_result [OF c1 rec1, of pf, unfolded b1(3) b1(4) b1(5)]
    have s2: "sound ?st2" using s1 by (rule sound_renderCharts)
    have g1: "chart_log ?st2 = chart_log ?st1
           @ [Destroyed k, Created (k + 2) CpuTrendCanvas,
              Destroyed (k + 1), Created (k + 3) AlertTypeCanvas]"
      using b2(6) by (simp add: numeral_2_eq_2 numeral_3_eq_3)
    have g2: "map chart_id (chartsOn CpuTrendCanvas ?st2) = [k + 2]"
      using b2(1) by simp
    have g3: "map chart_id (chartsOn AlertTypeCanvas ?st2) = [k + 3]"
      using b2(2) by (simp add: numeral_2_eq_2 numeral_3_eq_3)
    have "length (map chart_id (chartsOn CpuTrendCanvas ?st2)) = 1"
      and "length (map chart_id (chartsOn AlertTypeCanvas ?st2)) = 1"
      unfolding g2 g3 by simp_all
    then have g4: "length (live_charts ?st2) = 2"
      by (simp add: live_by_canvas)
    show ?thesis
      using b1(6) b1(1) b1(2) g1 g2 g3 g4 by blast
  qed
  show ?thesis
    using p1 p2 p3 p4 p5 p6 p7 r1(6) r1(1) r1(2) r1(3) p12 r2(1) t1(6) t1(1) t1(2) t1(3) p18
      t2(1) both
    by blast
qed

lemma loaded_page1:
  defines "st \<equiv> run sample [Load page1_response]"
  shows "alertsData st = map Record [alert1]"
    and "next_chart_id st = 2"
    and "cpuTrendChart st = Some 0"
    and "alertTypeChart st = Some 1"
    and "chart_log st = [Created 0 CpuTrendCanvas, Created 1 AlertTypeCanvas]"
proof -
  let ?st0 = "(fetch \<lparr>req_method = ''GET'', req_url = ''/alerts/'', req_content_type = [],
                   req_body = None\<rparr> initial)\<lparr>alertsData := map Record [alert1]\<rparr>"
  let ?base = "updateCoreMetrics (renderAlertsTable ?st0)"
  have eq: "st = renderCharts sample ?base"
    unfolding st_def run_def page1_response_def
    using refreshAlerts_records [of initial sample "[alert1]"]
    by (simp add: initial_def)
  have "consistent ?base = consistent initial"
    by (rule consistent_cong) (simp_all add: fetch_def)
  then have c: "consistent ?base"
    by (simp add: consistent_initial)
  have r: "alertsData ?base = map Record [alert1]"
    by simp
  have f: "next_chart_id ?base = 0" "cpuTrendChart ?base = None" "alertTypeChart ?base = None"
    "chart_log ?base = []"
    by (simp_all add: fetch_def initial_def)
  note b = renderCharts_result [OF c r, of sample, folded eq, unfolded f]
  show "alertsData st = map Record [alert1]"
    unfolding eq by simp
  show "next_chart_id st = 2" using b(5) by simp
  show "cpuTrendChart st = Some 0" using b(3) by simp
  show "alertTypeChart st = Some 1" using b(4) by simp
  show "chart_log st = [Created 0 CpuTrendCanvas, Created 1 AlertTypeCanvas]"
    using b(6) by simp
qed

theorem one_chart_per_canvas_witness:
  "alertsData (run sample [Load page1_response]) = map Record [alert1]
   \<and> chart_log (run sample [Load page1_response])
       = [Created 0 CpuTrendCanvas, Created 1 AlertTypeCanvas]
   \<and> chart_log (renderCharts sample (run sample [Load page1_response]))
       = [Created 0 CpuTrendCanvas, Created 1 AlertTypeCanvas,
          Destroyed 0, Created 2 CpuTrendCanvas, Destroyed 1, Created 3 AlertTypeCanvas]
   \<and> map chart_id (chartsOn CpuTrendCanvas
        (renderCharts sample (run sample [Load page1_response]))) = [2]
   \<and> map chart_id (chartsOn AlertTypeCanvas
        (renderCharts sample (run sample [Load page1_response]))) = [3]
   \<and> map chart_id (chartsOn CpuTrendCanvas
        (renderCharts sample (renderCharts sample (run sample [Load page1_response])))) = [4]
   \<and> map chart_id (chartsOn AlertTypeCanvas
        (renderCharts sample (renderCharts sample (run sample [Load page1_response])))) = [5]
   \<and> length (live_charts
        (renderCharts sample (renderCharts sample (run sample [Load page1_response])))) = 2"
proof -
  let ?st = "run sample [Load page1_response]"
  note p = loaded_page1
  have th: "alertsData ?st = map Record [alert1] \<longrightarrow>
         chart_log (renderCharts sample ?st) = chart_log ?st
           @ (case cpuTrendChart ?st of Some i \<Rightarrow> [Destroyed i] | None \<Rightarrow> [])
           @ [Created (next_chart_id ?st) CpuTrendCanvas]
           @ (case alertTypeChart ?st of Some i \<Rightarrow> [Destroyed i] | None \<Rightarrow> [])
           @ [Created (next_chart_id ?st + 1) AlertTypeCanvas]
         \<and> chartsOn CpuTrendCanvas (renderCharts sample ?st)
            = [\<lparr>chart_id = next_chart_id ?st, chart_canvas = CpuTrendCanvas,
                chart_config = Line (cpuData (processChartData sample [alert1]))\<rparr>]
         \<and> chartsOn AlertTypeCanvas (renderCharts sample ?st)
            = [\<lparr>chart_id = next_chart_id ?st + 1, chart_canvas = AlertTypeCanvas,
                chart_config = Doughnut (alertTypeData (processChartData sample [alert1]))
                  (take (length (type_labels (alertTypeData (processChartData sample [alert1]))))
                    colors)\<rparr>]
         \<and> chart_log (renderCharts sample (renderCharts sample ?st))
            = chart_log (renderCharts sample ?st)
           @ [Destroyed (next_chart_id ?st), Created (next_chart_id ?st + 2) CpuTrendCanvas,
              Destroyed (next_chart_id ?st + 1),
              Created (next_chart_id ?st + 3) AlertTypeCanvas]
         \<and> map chart_id (chartsOn CpuTrendCanvas (renderCharts sample (renderCharts sample ?st)))
            = [next_chart_id ?st + 2]
         \<and> map chart_id (chartsOn AlertTypeCanvas (renderCharts sample (renderCharts sample ?st)))
            = [next_chart_id ?st + 3]
         \<and> length (live_charts (renderCharts sample (renderCharts sample ?st))) = 2"
    using one_chart_per_canvas [where pf = sample and evs = "[Load page1_response]"
        and C = "[alert1]"]
    by blast
  show ?thesis
    using th p by simp
qed

end
